theory Spec2Isabelle
  imports Main "HOL-Library.AList"
begin

section \<open>Data model of raider/request.py\<close>

text \<open>
  The user data handed to every plugin is a read-only mapping from names to strings
  (\<^verbatim>\<open>Dict[str, str]\<close>).
\<close>

type_synonym userdata = "string \<rightharpoonup> string"

text \<open>
  A \<^verbatim>\<open>Plugin\<close> object, with the attributes request.py reads: \<^verbatim>\<open>name\<close>,
  \<^verbatim>\<open>name_not_known_in_advance\<close>, \<^verbatim>\<open>depends_on_other_plugins\<close>, the children
  \<^verbatim>\<open>plugins\<close>, and the method \<^verbatim>\<open>get_value(userdata)\<close>, which returns a string or
  \<^verbatim>\<open>None\<close>. The class itself lives in raider.plugins.common, outside request.py, so
  \<^verbatim>\<open>get_value\<close> is a field of the object: any function of the user data.
\<close>

datatype plugin = Plugin
  (name: string)
  (name_not_known_in_advance: bool)
  (depends_on_other_plugins: bool)
  (plugins: "plugin list")
  (get_value: "userdata \<Rightarrow> string option")

text \<open>The exceptions that the modelled code can raise.\<close>

datatype error =
  KeyError | EOFError | AttributeError | RecursionError | ProxyError | TransportError | SystemExit

text \<open>
  Dictionaries whose nested dictionaries are shared between the Request and the working
  copies live in a store of dictionary objects; a value refers to a nested dictionary by
  its address. A value is a string, a Plugin object, a dictionary (\<open>VDict\<close>) or a
  DataStore over a dictionary (\<open>VStore\<close>). A key of a body dictionary is a string or a
  Plugin object; two Plugin keys are the same key when they are the same object, which
  is equality of the values here.
\<close>

type_synonym addr = nat

datatype val = VStr string | VPlugin plugin | VDict addr | VStore addr

datatype key = KStr string | KPlugin plugin

text \<open>
  A Python \<^verbatim>\<open>dict\<close> is an association list with unique keys in insertion order.
  \<^verbatim>\<open>d.update({k: v})\<close> is \<^const>\<open>AList.update\<close>: it replaces the value in place when the
  key exists and appends the pair otherwise. \<^verbatim>\<open>d.pop(k)\<close> raises \<^verbatim>\<open>KeyError\<close> on an
  absent key.
\<close>

type_synonym ('k, 'v) pydict = "('k \<times> 'v) list"

definition pop :: "'k \<Rightarrow> ('k, 'v) pydict \<Rightarrow> error + ('v \<times> ('k, 'v) pydict)" where
  "pop k d = (case map_of d k of
                None \<Rightarrow> Inl KeyError
              | Some v \<Rightarrow> Inr (v, AList.delete k d))"

text \<open>Python truthiness of the result of \<^verbatim>\<open>get_value\<close>: \<^verbatim>\<open>not value\<close>.\<close>

definition falsy :: "string option \<Rightarrow> bool" where
  "falsy value = (value = None \<or> value = Some [])"

text \<open>
  \<^verbatim>\<open>prompt_empty_value(element, name)\<close> prints a message built from its arguments and
  returns one line read from the operator. The operator's lines are the state; reading
  past the last one raises \<^verbatim>\<open>EOFError\<close>, as \<^verbatim>\<open>input()\<close> does.
\<close>

fun prompt_empty_value :: "string \<Rightarrow> string \<Rightarrow> string list \<Rightarrow> error + (string \<times> string list)" where
  "prompt_empty_value element nm [] = Inl EOFError"
| "prompt_empty_value element nm (line # rest) = Inr (line, rest)"

text \<open>A \<^verbatim>\<open>for\<close> loop whose body may raise: the first exception ends the loop.\<close>

fun for_each :: "('a \<Rightarrow> 's \<Rightarrow> error + 's) \<Rightarrow> 'a list \<Rightarrow> 's \<Rightarrow> error + 's" where
  "for_each body [] s = Inr s"
| "for_each body (x # xs) s =
     (case body x s of Inl e \<Rightarrow> Inl e | Inr s' \<Rightarrow> for_each body xs s')"

text \<open>
  Modelled from the spec: the classes \<^verbatim>\<open>CookieStore\<close> and \<^verbatim>\<open>HeaderStore\<close> of
  raider.structures are not part of request.py. The spec describes a value container as
  an ordered mapping with unique names, iterated in insertion order, that flattens to a
  plain mapping. A store is therefore the association list of its keys and Plugin
  objects; \<^verbatim>\<open>for key in store\<close> visits the pairs in order, \<^verbatim>\<open>store[key]\<close> is the
  second component, and \<^verbatim>\<open>to_dict()\<close> is the dictionary of the same pairs.
\<close>

type_synonym store = "(string, plugin) pydict"

definition to_dict :: "store \<Rightarrow> (string, val) pydict" where
  "to_dict raw = map (\<lambda>(k, p). (k, VPlugin p)) raw"

text \<open>
  The value of one cookie or header: \<^verbatim>\<open>get_value\<close>, and the prompt when it is empty.
\<close>

definition value_or_prompt ::
  "string \<Rightarrow> string \<Rightarrow> string option \<Rightarrow> string list \<Rightarrow> error + (string \<times> string list)" where
  "value_or_prompt element nm value ins =
     (if falsy value then prompt_empty_value element nm ins else Inr (the value, ins))"

section \<open>process_cookies\<close>

definition cookie_body ::
  "userdata \<Rightarrow> string \<times> plugin \<Rightarrow> (string, val) pydict \<times> string list
     \<Rightarrow> error + ((string, val) pydict \<times> string list)" where
  "cookie_body userdata = (\<lambda>(key, c) (cookies, ins).
     (case (if name_not_known_in_advance c
            then (case pop key cookies of Inl e \<Rightarrow> Inl e | Inr (_, d) \<Rightarrow> Inr d)
            else Inr cookies) of
        Inl e \<Rightarrow> Inl e
      | Inr cookies1 \<Rightarrow>
          (case value_or_prompt ''Cookie'' (name c) (get_value c userdata) ins of
             Inl e \<Rightarrow> Inl e
           | Inr (value, ins1) \<Rightarrow>
               (if value = []
                then (case pop key cookies1 of
                        Inl e \<Rightarrow> Inl e
                      | Inr (_, cookies2) \<Rightarrow> Inr (cookies2, ins1))
                else Inr (AList.update (name c) (VStr value) cookies1, ins1)))))"

definition process_cookies ::
  "store \<Rightarrow> userdata \<Rightarrow> string list \<Rightarrow> error + ((string, val) pydict \<times> string list)" where
  "process_cookies raw_cookies userdata ins =
     for_each (cookie_body userdata) raw_cookies (to_dict raw_cookies, ins)"

section \<open>process_headers\<close>

text \<open>
  \<^verbatim>\<open>str.lower()\<close> on the characters a \<^typ>\<open>char\<close> can hold (code points below 256):
  the letters A to Z and the Latin-1 capitals \<^verbatim>\<open>U+00C0\<close> to \<^verbatim>\<open>U+00DE\<close>, the
  multiplication sign \<^verbatim>\<open>U+00D7\<close> apart, move up by 32.
\<close>

definition lower_char :: "char \<Rightarrow> char" where
  "lower_char c =
     (let n = (of_char c :: nat) in
      if (65 \<le> n \<and> n \<le> 90) \<or> (192 \<le> n \<and> n \<le> 222 \<and> n \<noteq> 215)
      then char_of (n + 32) else c)"

definition lower :: "string \<Rightarrow> string" where
  "lower s = map lower_char s"

text \<open>The run configuration \<^verbatim>\<open>pconfig\<close>, with the attributes request.py reads.\<close>

record config =
  user_agent :: string
  verify :: bool
  use_proxy :: bool
  proxy :: string
  active_user :: userdata

definition header_body ::
  "userdata \<Rightarrow> string \<times> plugin \<Rightarrow> (string, val) pydict \<times> string list
     \<Rightarrow> error + ((string, val) pydict \<times> string list)" where
  "header_body userdata = (\<lambda>(key, h) (headers, ins).
     (case (if name_not_known_in_advance h
            then (case pop key headers of Inl e \<Rightarrow> Inl e | Inr (_, d) \<Rightarrow> Inr d)
            else Inr headers) of
        Inl e \<Rightarrow> Inl e
      | Inr headers1 \<Rightarrow>
          (case value_or_prompt ''Header'' (name h) (get_value h userdata) ins of
             Inl e \<Rightarrow> Inl e
           | Inr (value, ins1) \<Rightarrow>
               (if value = []
                then (case pop (lower (name h)) headers1 of
                        Inl e \<Rightarrow> Inl e
                      | Inr (_, headers2) \<Rightarrow> Inr (headers2, ins1))
                else Inr (AList.update (name h) (VStr value) headers1, ins1)))))"

definition process_headers ::
  "store \<Rightarrow> userdata \<Rightarrow> config \<Rightarrow> string list
     \<Rightarrow> error + ((string, val) pydict \<times> string list)" where
  "process_headers raw_headers userdata pconfig ins =
     for_each (header_body userdata) raw_headers
       (AList.update ''user-agent'' (VStr (user_agent pconfig)) (to_dict raw_headers), ins)"

section \<open>process_data\<close>

text \<open>
  The dictionary objects of the body data. \<^verbatim>\<open>traverse_dict\<close> changes a dictionary in
  place and a nested dictionary is reached through the value that refers to it, so the
  dictionaries are the cells of a heap and an address is an index into it. Every address
  held by a value is allocated; \<open>deref\<close> of any other address is the empty dictionary.
\<close>

type_synonym heap = "(key, val) pydict list"

definition deref :: "heap \<Rightarrow> addr \<Rightarrow> (key, val) pydict" where
  "deref h a = (if a < length h then h ! a else [])"

text \<open>
  The first half of the loop body of \<^verbatim>\<open>traverse_dict\<close>, for a value that is a Plugin:
  resolve it, prompt when it is empty, then \<^verbatim>\<open>data.pop(key)\<close> or
  \<^verbatim>\<open>data.update({key: new_value})\<close>.
\<close>

definition resolve_value ::
  "userdata \<Rightarrow> addr \<Rightarrow> key \<Rightarrow> plugin \<Rightarrow> heap \<times> string list \<Rightarrow> error + (heap \<times> string list)" where
  "resolve_value userdata data key p = (\<lambda>(h, ins).
     (case value_or_prompt ''Value'' (name p) (get_value p userdata) ins of
        Inl e \<Rightarrow> Inl e
      | Inr (new_value, ins1) \<Rightarrow>
          (if new_value = []
           then (case pop key (deref h data) of
                   Inl e \<Rightarrow> Inl e
                 | Inr (_, d) \<Rightarrow> Inr (h[data := d], ins1))
           else Inr (h[data := AList.update key (VStr new_value) (deref h data)], ins1))))"

text \<open>
  The second half, for a key that is a Plugin: \<^verbatim>\<open>new_value = data.pop(key)\<close>, resolve
  the key, prompt when it is empty, then \<^verbatim>\<open>data.pop(key)\<close> or
  \<^verbatim>\<open>data.update({new_key: new_value})\<close>.
\<close>

definition resolve_key ::
  "userdata \<Rightarrow> addr \<Rightarrow> plugin \<Rightarrow> heap \<times> string list \<Rightarrow> error + (heap \<times> string list)" where
  "resolve_key userdata data p = (\<lambda>(h, ins).
     (case pop (KPlugin p) (deref h data) of
        Inl e \<Rightarrow> Inl e
      | Inr (new_value, d1) \<Rightarrow>
          (case value_or_prompt ''Key'' (name p) (get_value p userdata) ins of
             Inl e \<Rightarrow> Inl e
           | Inr (new_key, ins1) \<Rightarrow>
               (if new_key = []
                then (case pop (KPlugin p) d1 of
                        Inl e \<Rightarrow> Inl e
                      | Inr (_, d2) \<Rightarrow> Inr (h[data := d2], ins1))
                else Inr (h[data := AList.update (KStr new_key) new_value d1], ins1)))))"

text \<open>
  The body of the loop of \<^verbatim>\<open>traverse_dict\<close> for one key of the dictionary at
  address \<open>data\<close>. The recursive call on a nested dictionary is the argument
  \<open>recurse\<close>.
\<close>

definition traverse_body ::
  "(addr \<Rightarrow> heap \<times> string list \<Rightarrow> error + (heap \<times> string list))
     \<Rightarrow> userdata \<Rightarrow> addr \<Rightarrow> key \<Rightarrow> heap \<times> string list \<Rightarrow> error + (heap \<times> string list)" where
  "traverse_body recurse userdata data key s =
     (case (case map_of (deref (fst s) data) key of
              None \<Rightarrow> Inl KeyError
            | Some value \<Rightarrow>
                (case value of
                   VPlugin p \<Rightarrow> resolve_value userdata data key p s
                 | VDict nested \<Rightarrow> recurse nested s
                 | VStr v \<Rightarrow> Inr s
                 | VStore a \<Rightarrow> Inr s)) of
        Inl e \<Rightarrow> Inl e
      | Inr s1 \<Rightarrow>
          (case key of
             KPlugin p \<Rightarrow> resolve_key userdata data p s1
           | KStr k \<Rightarrow> Inr s1))"

text \<open>
  \<^verbatim>\<open>traverse_dict(data, userdata)\<close> on the dictionary at address \<open>data\<close>. The loop runs
  over \<^verbatim>\<open>list(data)\<close>, the keys as they were when the loop started. The first argument
  is the number of nested calls the interpreter still allows: Python raises
  \<^verbatim>\<open>RecursionError\<close> when the nesting is deeper.
\<close>

fun traverse_dict ::
  "nat \<Rightarrow> userdata \<Rightarrow> addr \<Rightarrow> heap \<times> string list \<Rightarrow> error + (heap \<times> string list)" where
  "traverse_dict 0 userdata data s = Inl RecursionError"
| "traverse_dict (Suc depth) userdata data s =
     for_each (traverse_body (traverse_dict depth userdata) userdata data)
       (map fst (deref (fst s) data)) s"

text \<open>
  Modelled from the spec: \<^verbatim>\<open>DataStore\<close> of raider.structures is not part of
  request.py. A value \<open>VStore a\<close> is a DataStore whose mapping is the dictionary at
  address \<open>a\<close>, and \<^verbatim>\<open>to_dict()\<close> flattens it to that plain mapping. The
  \<^verbatim>\<open>.copy()\<close> of request.py is Python's shallow copy: a new dictionary with the same
  keys and the same values, nested dictionaries included by reference.
\<close>

definition to_dict_copy :: "heap \<Rightarrow> addr \<Rightarrow> addr \<times> heap" where
  "to_dict_copy h a = (length h, h @ [deref h a])"

definition group_body ::
  "nat \<Rightarrow> userdata \<Rightarrow> key \<times> val \<Rightarrow> (key, val) pydict \<times> heap \<times> string list
     \<Rightarrow> error + ((key, val) pydict \<times> heap \<times> string list)" where
  "group_body depth userdata = (\<lambda>(key, value) (httpdata, h, ins).
     (case value of
        VStore a \<Rightarrow>
          (case to_dict_copy h a of (new_dict, h1) \<Rightarrow>
             (case traverse_dict depth userdata new_dict (h1, ins) of
                Inl e \<Rightarrow> Inl e
              | Inr (h2, ins2) \<Rightarrow> Inr (AList.update key (VDict new_dict) httpdata, h2, ins2)))
      | VStr v \<Rightarrow> Inl AttributeError
      | VPlugin p \<Rightarrow> Inl AttributeError
      | VDict d \<Rightarrow> Inl AttributeError))"

definition process_data ::
  "nat \<Rightarrow> (key, val) pydict \<Rightarrow> userdata \<Rightarrow> heap \<times> string list
     \<Rightarrow> error + ((key, val) pydict \<times> heap \<times> string list)" where
  "process_data depth raw_data userdata = (\<lambda>(h, ins).
     for_each (group_body depth userdata) raw_data ([], h, ins))"

section \<open>Request\<close>

text \<open>
  The \<^verbatim>\<open>url\<close> attribute holds a string or a Plugin; \<^verbatim>\<open>send\<close> stores the result of
  \<^verbatim>\<open>get_value\<close> there, which may be \<^verbatim>\<open>None\<close>.
\<close>

datatype urlval = UStr string | UPlugin plugin | UNone

text \<open>
  A \<^verbatim>\<open>Request\<close> object. \<open>data\<close> is the dictionary that \<^verbatim>\<open>__init__\<close> builds, from
  the name of a body group to a DataStore, and \<open>kwargs\<close> lists the names of the keyword
  arguments the object was created with (\<^verbatim>\<open>send\<close> only tests membership in
  \<^verbatim>\<open>self.kwargs\<close>). The bound transport \<^verbatim>\<open>self.function\<close> is an argument of
  \<open>send\<close>.
\<close>

record request =
  "method" :: string
  url :: urlval
  headers :: store
  cookies :: store
  data :: "(key, val) pydict"
  kwargs :: "string list"

subsection \<open>list_inputs\<close>

definition get_children_plugins :: "plugin \<Rightarrow> (string, plugin) pydict" where
  "get_children_plugins p =
     (if depends_on_other_plugins p
      then fold (\<lambda>item output. AList.update (name item) item output) (plugins p) []
      else [])"

text \<open>\<^verbatim>\<open>d.update(other)\<close> for two dictionaries.\<close>

definition dict_update :: "('k, 'v) pydict \<Rightarrow> ('k, 'v) pydict \<Rightarrow> ('k, 'v) pydict" where
  "dict_update d other = fold (\<lambda>(k, v). AList.update k v) other d"

text \<open>
  The two statements that every branch of \<^verbatim>\<open>list_inputs\<close> repeats:
  \<^verbatim>\<open>inputs.update({nm: p}); inputs.update(get_children_plugins(p))\<close>.
\<close>

definition register :: "string \<Rightarrow> plugin \<Rightarrow> (string, plugin) pydict \<Rightarrow> (string, plugin) pydict" where
  "register nm p inputs = dict_update (AList.update nm p inputs) (get_children_plugins p)"

definition list_inputs :: "request \<Rightarrow> (string, plugin) pydict" where
  "list_inputs self =
     (let inputs0 = [];
          inputs1 = (case url self of
                       UPlugin p \<Rightarrow> register (name p) p inputs0
                     | UStr u \<Rightarrow> inputs0
                     | UNone \<Rightarrow> inputs0);
          inputs2 = fold (\<lambda>(nm, cookie). register nm cookie) (cookies self) inputs1;
          inputs3 = fold (\<lambda>(nm, header). register nm header) (headers self) inputs2
      in fold (\<lambda>(key, value) inputs.
                 (let inputs' = (case key of
                                   KPlugin p \<Rightarrow> register (name p) p inputs
                                 | KStr k \<Rightarrow> inputs)
                  in (case value of
                        VPlugin p \<Rightarrow> register (name p) p inputs'
                      | VStr v \<Rightarrow> inputs'
                      | VDict d \<Rightarrow> inputs'
                      | VStore a \<Rightarrow> inputs')))
           (data self) inputs3)"

subsection \<open>send\<close>

text \<open>
  The keyword arguments of the call of \<^verbatim>\<open>self.function\<close>. \<open>proxies\<close> is the value
  under \<^verbatim>\<open>"all"\<close> or \<^verbatim>\<open>None\<close>.
\<close>

record call =
  call_url :: urlval
  call_headers :: "(string, val) pydict"
  call_cookies :: "(string, val) pydict"
  call_proxies :: "string option"
  call_verify :: bool
  call_allow_redirects :: bool
  call_params :: "string option"
  call_data :: "val option"
  call_json :: "val option"
  call_files :: "val option"

text \<open>
  The two messages that \<^verbatim>\<open>send\<close> passes to \<^verbatim>\<open>self.logger.warning\<close>, with the
  method and the groups they name. The debug records are left out.
\<close>

datatype warning =
  GetOnlyParams "string list"
| SameTime string "string list"

text \<open>
  \<^verbatim>\<open>{"data", "json", "multipart"}.intersection(set(self.kwargs))\<close>. Python leaves the
  order of a set open; the groups are listed here in the order of the literal.
\<close>

definition body_attrs :: "string list \<Rightarrow> string list" where
  "body_attrs kw = filter (\<lambda>g. g \<in> set kw) [''data'', ''json'', ''multipart'']"

definition warnings :: "request \<Rightarrow> warning list" where
  "warnings self =
     (let attrs = body_attrs (kwargs self) in
      if method self = ''GET'' \<and> attrs \<noteq> [] then [GetOnlyParams attrs]
      else if attrs \<noteq> [] then [SameTime (method self) attrs]
      else [])"

text \<open>
  \<^verbatim>\<open>send(pconfig)\<close>. The transport \<open>function\<close> and \<^verbatim>\<open>urllib.parse.urlencode\<close> are
  arguments; both read the dictionaries they are given from the heap. A
  \<^verbatim>\<open>ProxyError\<close> of the transport ends the process (\<^verbatim>\<open>sys.exit()\<close>), any other
  exception propagates. The result is the response, the Request after the call, the
  warnings logged, and the heap and operator input after the call. The attribute
  \<^verbatim>\<open>self.logger\<close>, which \<^verbatim>\<open>send\<close> also sets, is not part of the record.
\<close>

definition send ::
  "(call \<Rightarrow> heap \<Rightarrow> error + 'r) \<Rightarrow> (heap \<Rightarrow> val \<Rightarrow> string) \<Rightarrow> nat \<Rightarrow> config \<Rightarrow> request
     \<Rightarrow> heap \<times> string list
     \<Rightarrow> error + ('r \<times> request \<times> warning list \<times> heap \<times> string list)" where
  "send function urlencode depth pconfig self = (\<lambda>(h, ins).
     (let userdata = active_user pconfig;
          proxies = (if use_proxy pconfig then Some (proxy pconfig) else None);
          self1 = (case url self of
                     UPlugin p \<Rightarrow>
                       self\<lparr>url := (case get_value p userdata of
                                      None \<Rightarrow> UNone
                                    | Some v \<Rightarrow> UStr v)\<rparr>
                   | UStr u \<Rightarrow> self
                   | UNone \<Rightarrow> self)
      in (case process_cookies (cookies self1) userdata ins of
            Inl e \<Rightarrow> Inl e
          | Inr (cookies', ins1) \<Rightarrow>
         (case process_headers (headers self1) userdata pconfig ins1 of
            Inl e \<Rightarrow> Inl e
          | Inr (headers', ins2) \<Rightarrow>
         (case process_data depth (data self1) userdata (h, ins2) of
            Inl e \<Rightarrow> Inl e
          | Inr (processed, h3, ins3) \<Rightarrow>
         (case (if ''params'' \<in> set (kwargs self1)
                then (case map_of processed (KStr ''params'') of
                        None \<Rightarrow> Inl KeyError
                      | Some v \<Rightarrow> Inr (Some (urlencode h3 v)))
                else Inr None) of
            Inl e \<Rightarrow> Inl e
          | Inr params \<Rightarrow>
         (case function
                 \<lparr>call_url = url self1, call_headers = headers', call_cookies = cookies',
                  call_proxies = proxies, call_verify = verify pconfig,
                  call_allow_redirects = False, call_params = params,
                  call_data = map_of processed (KStr ''data''),
                  call_json = map_of processed (KStr ''json''),
                  call_files = map_of processed (KStr ''multipart'')\<rparr> h3 of
            Inl e \<Rightarrow> (if e = ProxyError then Inl SystemExit else Inl e)
          | Inr req \<Rightarrow> Inr (req, self1, warnings self1, h3, ins3))))))))"

section \<open>Containers of literals and repeated resolution\<close>

text \<open>
  An entry of a cookie or header store with a literal value, as \<^verbatim>\<open>Cookie(name, value)\<close>
  makes it: a Plugin object with that name, known in advance, no children, whose
  \<^verbatim>\<open>get_value\<close> returns the string whatever the user data. A cookie store of literals
  is keyed by the names as they are written. A header store is keyed by the lower-cased
  names, the keys that \<^verbatim>\<open>process_headers\<close> pops. \<open>literal_mapping\<close> is the plain
  name-to-value mapping of either.
\<close>

definition literal_plugin :: "string \<Rightarrow> string \<Rightarrow> plugin" where
  "literal_plugin nm v = Plugin nm False False [] (\<lambda>u. Some v)"

definition literal_store :: "(string \<times> string) list \<Rightarrow> store" where
  "literal_store m = map (\<lambda>(nm, v). (nm, literal_plugin nm v)) m"

definition literal_header_store :: "(string \<times> string) list \<Rightarrow> store" where
  "literal_header_store m = map (\<lambda>(nm, v). (lower nm, literal_plugin nm v)) m"

definition literal_mapping :: "(string \<times> string) list \<Rightarrow> (string, val) pydict" where
  "literal_mapping m = map (\<lambda>(nm, v). (nm, VStr v)) m"

text \<open>A body group whose keys and values are all strings.\<close>

definition literal_body :: "(string \<times> string) list \<Rightarrow> (key, val) pydict" where
  "literal_body m = map (\<lambda>(k, v). (KStr k, VStr v)) m"

text \<open>
  Calling a resolution function \<open>n\<close> times in a row, each call starting in the state the
  previous one left, and collecting what the calls return.
\<close>

fun repeat_call :: "nat \<Rightarrow> ('s \<Rightarrow> error + ('a \<times> 's)) \<Rightarrow> 's \<Rightarrow> error + ('a list \<times> 's)" where
  "repeat_call 0 f s = Inr ([], s)"
| "repeat_call (Suc n) f s =
     (case f s of
        Inl e \<Rightarrow> Inl e
      | Inr (x, s') \<Rightarrow>
          (case repeat_call n f s' of
             Inl e \<Rightarrow> Inl e
           | Inr (xs, s'') \<Rightarrow> Inr (x # xs, s'')))"

section \<open>Template\<close>

text \<open>
  Modelled from the spec: the constructors \<^verbatim>\<open>CookieStore(cookies)\<close> and
  \<^verbatim>\<open>HeaderStore(headers)\<close> and the method \<^verbatim>\<open>merge\<close> of raider.structures are not
  part of request.py. By the spec a container is keyed by name, keeps insertion order and
  has unique names, and merge is the union in which the entries of the override win on a
  name collision.
\<close>

definition new_store :: "plugin list \<Rightarrow> store" where
  "new_store items = fold (\<lambda>p d. AList.update (name p) p d) items []"

definition merge :: "store \<Rightarrow> store \<Rightarrow> store" where
  "merge base other = fold (\<lambda>(k, p). AList.update k p) other base"

text \<open>
  \<^verbatim>\<open>copy.deepcopy\<close> of the standard library, on the values of the body data. A string
  is returned as it is and a Plugin object is a value of this model. A dictionary is
  copied into a new cell, entry by entry, after the memo has recorded the new address for
  the old one, so that a dictionary met twice is copied once. The copy of a DataStore is
  a DataStore over the copy of its dictionary. The first argument bounds the nesting, as
  for \<open>traverse_dict\<close>.
\<close>

type_synonym memo = "(addr, addr) pydict"

definition copy_entry ::
  "(val \<Rightarrow> memo \<times> heap \<Rightarrow> error + (val \<times> memo \<times> heap))
     \<Rightarrow> addr \<Rightarrow> key \<times> val \<Rightarrow> memo \<times> heap \<Rightarrow> error + (memo \<times> heap)" where
  "copy_entry recurse y = (\<lambda>(k, v) s.
     (case recurse v s of
        Inl e \<Rightarrow> Inl e
      | Inr (v', memo', h') \<Rightarrow> Inr (memo', h'[y := AList.update k v' (deref h' y)])))"

definition copy_dict ::
  "(val \<Rightarrow> memo \<times> heap \<Rightarrow> error + (val \<times> memo \<times> heap))
     \<Rightarrow> addr \<Rightarrow> memo \<times> heap \<Rightarrow> error + (addr \<times> memo \<times> heap)" where
  "copy_dict recurse a = (\<lambda>(memo, h).
     (case map_of memo a of
        Some y \<Rightarrow> Inr (y, memo, h)
      | None \<Rightarrow>
          (case for_each (copy_entry recurse (length h)) (deref h a)
                  (AList.update a (length h) memo, h @ [[]]) of
             Inl e \<Rightarrow> Inl e
           | Inr (memo', h') \<Rightarrow> Inr (length h, memo', h'))))"

fun deepcopy :: "nat \<Rightarrow> val \<Rightarrow> memo \<times> heap \<Rightarrow> error + (val \<times> memo \<times> heap)" where
  "deepcopy 0 v s = Inl RecursionError"
| "deepcopy (Suc depth) v s =
     (case v of
        VStr x \<Rightarrow> Inr (v, s)
      | VPlugin p \<Rightarrow> Inr (v, s)
      | VDict a \<Rightarrow>
          (case copy_dict (deepcopy depth) a s of
             Inl e \<Rightarrow> Inl e
           | Inr (y, s') \<Rightarrow> Inr (VDict y, s'))
      | VStore a \<Rightarrow>
          (case copy_dict (deepcopy depth) a s of
             Inl e \<Rightarrow> Inl e
           | Inr (y, s') \<Rightarrow> Inr (VStore y, s')))"

text \<open>
  \<^verbatim>\<open>deepcopy(self)\<close> for a Request: the strings and the Plugin objects of the stores are
  values, and the dictionary \<open>data\<close> is copied entry by entry with one memo.
\<close>

definition deepcopy_entry ::
  "nat \<Rightarrow> key \<times> val \<Rightarrow> (key, val) pydict \<times> memo \<times> heap
     \<Rightarrow> error + ((key, val) pydict \<times> memo \<times> heap)" where
  "deepcopy_entry depth = (\<lambda>(k, v) (d, s).
     (case deepcopy depth v s of
        Inl e \<Rightarrow> Inl e
      | Inr (v', s') \<Rightarrow> Inr (AList.update k v' d, s')))"

definition deepcopy_request :: "nat \<Rightarrow> request \<Rightarrow> heap \<Rightarrow> error + (request \<times> heap)" where
  "deepcopy_request depth self h =
     (case for_each (deepcopy_entry depth) (data self) ([], [], h) of
        Inl e \<Rightarrow> Inl e
      | Inr (d, memo, h') \<Rightarrow> Inr (self\<lparr>data := d\<rparr>, h'))"

text \<open>
  \<^verbatim>\<open>Template.__call__(method, url, cookies, headers, data)\<close>. An argument left at its
  default \<^verbatim>\<open>None\<close> is \<open>None\<close>, \<open>UNone\<close> for the url. Each \<^verbatim>\<open>if\<close> tests the
  truth value of its argument: \<^verbatim>\<open>None\<close>, the empty string, the empty list and the
  empty dictionary are false, a Plugin object is true.
\<close>

definition truthy_url :: "urlval \<Rightarrow> bool" where
  "truthy_url u = (case u of UNone \<Rightarrow> False | UStr s \<Rightarrow> s \<noteq> [] | UPlugin p \<Rightarrow> True)"

definition template_call ::
  "nat \<Rightarrow> request \<Rightarrow> string option \<Rightarrow> urlval \<Rightarrow> plugin list option \<Rightarrow> plugin list option
     \<Rightarrow> (key, val) pydict option \<Rightarrow> heap \<Rightarrow> error + (request \<times> heap)" where
  "template_call depth self method' url' cookies' headers' data' h =
     (case deepcopy_request depth self h of
        Inl e \<Rightarrow> Inl e
      | Inr (template, h') \<Rightarrow>
          (let t1 = (case method' of
                       None \<Rightarrow> template
                     | Some m \<Rightarrow> if m \<noteq> [] then template\<lparr>method := m\<rparr> else template);
               t2 = (if truthy_url url' then t1\<lparr>url := url'\<rparr> else t1);
               t3 = (case cookies' of
                       None \<Rightarrow> t2
                     | Some cs \<Rightarrow>
                         if cs \<noteq> [] then t2\<lparr>cookies := merge (cookies t2) (new_store cs)\<rparr>
                         else t2);
               t4 = (case headers' of
                       None \<Rightarrow> t3
                     | Some hs \<Rightarrow>
                         if hs \<noteq> [] then t3\<lparr>headers := merge (headers t3) (new_store hs)\<rparr>
                         else t3);
               t5 = (case data' of
                       None \<Rightarrow> t4
                     | Some d \<Rightarrow> if d \<noteq> [] then t4\<lparr>data := dict_update (data t4) d\<rparr> else t4)
           in Inr (t5, h')))"

section \<open>Template: the objects of an instance\<close>

text \<open>
  Which objects an instance shares with its template is a question about the objects
  themselves, so here every mutable object is a cell of an object heap: a Plugin object,
  a dictionary, a list, and a CookieStore, HeaderStore or DataStore, which is the
  dictionary it wraps. A reference is a string, \<^verbatim>\<open>None\<close> or the address of a cell. A
  cell has a tag, the part of the object that cannot change (for a Plugin its name, its
  two flags and its \<^verbatim>\<open>get_value\<close>), and entries: the keys and values of a dictionary,
  the children of a Plugin. Two Plugin keys are the same key when they are the same
  address.
\<close>

datatype oref = OStr string | ONone | ORef addr

datatype otag = TDict | TPlugin string bool bool "userdata \<Rightarrow> string option"

type_synonym obj = "otag \<times> (oref, oref) pydict"

type_synonym oheap = "obj list"

definition oderef :: "oheap \<Rightarrow> addr \<Rightarrow> obj" where
  "oderef h a = (if a < length h then h ! a else (TDict, []))"

text \<open>
  \<^verbatim>\<open>copy.deepcopy\<close> of the standard library on this heap. A string and \<^verbatim>\<open>None\<close> are
  returned as they are. An object met before is answered from the memo. Otherwise a new
  cell with the same tag is allocated and entered in the memo, then filled entry by entry:
  \<^verbatim>\<open>y[deepcopy(key, memo)] = deepcopy(value, memo)\<close>, where Python evaluates the right
  side first. The first argument bounds the nesting of objects.
\<close>

definition ocopy_entry ::
  "(oref \<Rightarrow> memo \<times> oheap \<Rightarrow> error + (oref \<times> memo \<times> oheap))
     \<Rightarrow> addr \<Rightarrow> oref \<times> oref \<Rightarrow> memo \<times> oheap \<Rightarrow> error + (memo \<times> oheap)" where
  "ocopy_entry recurse y = (\<lambda>(k, v) s.
     (case recurse v s of
        Inl e \<Rightarrow> Inl e
      | Inr (v', s1) \<Rightarrow>
          (case recurse k s1 of
             Inl e \<Rightarrow> Inl e
           | Inr (k', memo2, h2) \<Rightarrow>
               Inr (memo2,
                    h2[y := (fst (oderef h2 y), AList.update k' v' (snd (oderef h2 y)))]))))"

definition ocopy_object ::
  "(oref \<Rightarrow> memo \<times> oheap \<Rightarrow> error + (oref \<times> memo \<times> oheap))
     \<Rightarrow> addr \<Rightarrow> memo \<times> oheap \<Rightarrow> error + (addr \<times> memo \<times> oheap)" where
  "ocopy_object recurse a = (\<lambda>(memo, h).
     (case map_of memo a of
        Some y \<Rightarrow> Inr (y, memo, h)
      | None \<Rightarrow>
          (case for_each (ocopy_entry recurse (length h)) (snd (oderef h a))
                  (AList.update a (length h) memo, h @ [(fst (oderef h a), [])]) of
             Inl e \<Rightarrow> Inl e
           | Inr (memo', h') \<Rightarrow> Inr (length h, memo', h'))))"

fun odeepcopy :: "nat \<Rightarrow> oref \<Rightarrow> memo \<times> oheap \<Rightarrow> error + (oref \<times> memo \<times> oheap)" where
  "odeepcopy depth (OStr x) s = Inr (OStr x, s)"
| "odeepcopy depth ONone s = Inr (ONone, s)"
| "odeepcopy 0 (ORef a) s = Inl RecursionError"
| "odeepcopy (Suc depth) (ORef a) s =
     (case ocopy_object (odeepcopy depth) a s of
        Inl e \<Rightarrow> Inl e
      | Inr (y, s') \<Rightarrow> Inr (ORef y, s'))"

text \<open>
  A Request object by its attributes: the method, the url (a string, \<^verbatim>\<open>None\<close> or a
  Plugin object), and the addresses of its HeaderStore, its CookieStore and its
  dictionary \<^verbatim>\<open>data\<close>. \<^verbatim>\<open>deepcopy(self)\<close> makes a new Request object and copies the
  attributes in the order in which \<^verbatim>\<open>__init__\<close> set them, with one memo. The attribute
  \<^verbatim>\<open>kwargs\<close>, which holds the same Plugin objects and dictionaries once more, is left
  out, as are the logger and the transport function.
\<close>

record request_object =
  obj_method :: string
  obj_url :: oref
  obj_headers :: addr
  obj_cookies :: addr
  obj_data :: addr

definition odeepcopy_request ::
  "nat \<Rightarrow> request_object \<Rightarrow> oheap \<Rightarrow> error + (request_object \<times> memo \<times> oheap)" where
  "odeepcopy_request depth self h =
     (case odeepcopy (Suc depth) (obj_url self) ([], h) of
        Inl e \<Rightarrow> Inl e
      | Inr (u, s1) \<Rightarrow>
     (case ocopy_object (odeepcopy depth) (obj_headers self) s1 of
        Inl e \<Rightarrow> Inl e
      | Inr (hdr, s2) \<Rightarrow>
     (case ocopy_object (odeepcopy depth) (obj_cookies self) s2 of
        Inl e \<Rightarrow> Inl e
      | Inr (ck, s3) \<Rightarrow>
     (case ocopy_object (odeepcopy depth) (obj_data self) s3 of
        Inl e \<Rightarrow> Inl e
      | Inr (dt, memo4, h4) \<Rightarrow>
          Inr (self\<lparr>obj_url := u, obj_headers := hdr, obj_cookies := ck, obj_data := dt\<rparr>,
               memo4, h4)))))"

text \<open>
  Modelled from the spec: \<^verbatim>\<open>CookieStore(cookies)\<close>, \<^verbatim>\<open>HeaderStore(headers)\<close> and
  \<^verbatim>\<open>merge\<close> of raider.structures, on the object heap. The store built from a list of
  Plugin objects holds each object itself under its name, and merging writes the entries
  of the override into the dictionary of the store, the override winning on a name
  collision. \<^verbatim>\<open>dict.update\<close> does the same for the data override. Reading the name of
  something that is not a Plugin object raises \<^verbatim>\<open>AttributeError\<close>.
\<close>

fun ostore_entries :: "oheap \<Rightarrow> addr list \<Rightarrow> error + (oref, oref) pydict" where
  "ostore_entries h [] = Inr []"
| "ostore_entries h (c # cs) =
     (case fst (oderef h c) of
        TDict \<Rightarrow> Inl AttributeError
      | TPlugin nm unknown_name depends value_of \<Rightarrow>
          (case ostore_entries h cs of
             Inl e \<Rightarrow> Inl e
           | Inr rest \<Rightarrow> Inr ((OStr nm, ORef c) # rest)))"

definition oupdate_object :: "addr \<Rightarrow> (oref, oref) pydict \<Rightarrow> oheap \<Rightarrow> oheap" where
  "oupdate_object a other h =
     h[a := (fst (oderef h a), dict_update (snd (oderef h a)) other)]"

definition truthy_ref :: "oref \<Rightarrow> bool" where
  "truthy_ref u = (case u of ONone \<Rightarrow> False | OStr s \<Rightarrow> s \<noteq> [] | ORef a \<Rightarrow> True)"

text \<open>
  \<^verbatim>\<open>Template.__call__\<close> on the object heap. The overrides are the caller's objects:
  the url, the Plugin objects of the lists \<open>cookies'\<close> and \<open>headers'\<close>, and the entries
  of the dictionary \<open>data'\<close>. They are stored as they are.
\<close>

definition omerge_override ::
  "addr \<Rightarrow> addr list option \<Rightarrow> oheap \<Rightarrow> error + oheap" where
  "omerge_override a override h =
     (case override of
        None \<Rightarrow> Inr h
      | Some cs \<Rightarrow>
          if cs \<noteq> []
          then (case ostore_entries h cs of
                  Inl e \<Rightarrow> Inl e
                | Inr entries \<Rightarrow> Inr (oupdate_object a entries h))
          else Inr h)"

definition template_object_call ::
  "nat \<Rightarrow> request_object \<Rightarrow> string option \<Rightarrow> oref \<Rightarrow> addr list option \<Rightarrow> addr list option
     \<Rightarrow> (oref, oref) pydict option \<Rightarrow> oheap \<Rightarrow> error + (request_object \<times> oheap)" where
  "template_object_call depth self method' url' cookies' headers' data' h =
     (case odeepcopy_request depth self h of
        Inl e \<Rightarrow> Inl e
      | Inr (template, memo, h1) \<Rightarrow>
          (let t1 = (case method' of
                       None \<Rightarrow> template
                     | Some m \<Rightarrow> if m \<noteq> [] then template\<lparr>obj_method := m\<rparr> else template);
               t2 = (if truthy_ref url' then t1\<lparr>obj_url := url'\<rparr> else t1)
           in (case omerge_override (obj_cookies t2) cookies' h1 of
                 Inl e \<Rightarrow> Inl e
               | Inr h2 \<Rightarrow>
              (case omerge_override (obj_headers t2) headers' h2 of
                 Inl e \<Rightarrow> Inl e
               | Inr h3 \<Rightarrow>
                   Inr (t2, (case data' of
                               None \<Rightarrow> h3
                             | Some d \<Rightarrow>
                                 if d \<noteq> [] then oupdate_object (obj_data t2) d h3
                                 else h3))))))"

text \<open>
  The addresses a reference or an object holds, and the objects that can be reached from
  a set of addresses.
\<close>

fun ref_addrs :: "oref \<Rightarrow> addr set" where
  "ref_addrs (OStr s) = {}"
| "ref_addrs ONone = {}"
| "ref_addrs (ORef a) = {a}"

definition entries_addrs :: "(oref, oref) pydict \<Rightarrow> addr set" where
  "entries_addrs d = (\<Union>(k, v) \<in> set d. ref_addrs k \<union> ref_addrs v)"

definition obj_addrs :: "obj \<Rightarrow> addr set" where
  "obj_addrs ob = entries_addrs (snd ob)"

inductive_set oreach :: "oheap \<Rightarrow> addr set \<Rightarrow> addr set" for h :: oheap and roots :: "addr set" where
  root: "a \<in> roots \<Longrightarrow> a \<in> oreach h roots"
| step: "a \<in> oreach h roots \<Longrightarrow> b \<in> obj_addrs (oderef h a) \<Longrightarrow> b \<in> oreach h roots"

definition request_roots :: "request_object \<Rightarrow> addr set" where
  "request_roots r = ref_addrs (obj_url r) \<union> {obj_headers r, obj_cookies r, obj_data r}"

text \<open>
  A heap is well formed when its objects refer to allocated objects only and the keys of
  every dictionary are distinct.
\<close>

definition owf :: "oheap \<Rightarrow> bool" where
  "owf h = (\<forall>a < length h. obj_addrs (h ! a) \<subseteq> {..< length h} \<and> distinct (map fst (snd (h ! a))))"

text \<open>
  Renaming the addresses of a reference, of an entry and of an object along a partial
  map; an address outside its domain stays.
\<close>

fun rn :: "(addr \<rightharpoonup> addr) \<Rightarrow> oref \<Rightarrow> oref" where
  "rn f (OStr s) = OStr s"
| "rn f ONone = ONone"
| "rn f (ORef a) = (case f a of None \<Rightarrow> ORef a | Some y \<Rightarrow> ORef y)"

definition rn_entries :: "(addr \<rightharpoonup> addr) \<Rightarrow> (oref, oref) pydict \<Rightarrow> (oref, oref) pydict" where
  "rn_entries f d = map (\<lambda>(k, v). (rn f k, rn f v)) d"

definition rn_obj :: "(addr \<rightharpoonup> addr) \<Rightarrow> obj \<Rightarrow> obj" where
  "rn_obj f ob = (fst ob, rn_entries f (snd ob))"

text \<open>
  The state of a deep copy that started on the heap \<open>h0\<close>: the cells of \<open>h0\<close> are as
  they were, the memo is a one-to-one map from old addresses onto the new cells, and the
  copy of every old object that is not still being filled (not in \<open>pending\<close>) is that
  object renamed along the memo.
\<close>

definition ogood :: "oheap \<Rightarrow> addr set \<Rightarrow> memo \<times> oheap \<Rightarrow> bool" where
  "ogood h0 pending s = (case s of (memo, h) \<Rightarrow>
     length h0 \<le> length h \<and> take (length h0) h = h0
     \<and> (\<forall>a b y. map_of memo a = Some y \<and> map_of memo b = Some y \<longrightarrow> a = b)
     \<and> dom (map_of memo) \<subseteq> {..< length h0}
     \<and> ran (map_of memo) = {length h0 ..< length h}
     \<and> (\<forall>a y. map_of memo a = Some y \<and> a \<notin> pending \<longrightarrow>
            h ! y = rn_obj (map_of memo) (h0 ! a) \<and> obj_addrs (h0 ! a) \<subseteq> dom (map_of memo)))"

text \<open>What a copying function guarantees in such a state.\<close>

definition ocopies ::
  "oheap \<Rightarrow> (oref \<Rightarrow> memo \<times> oheap \<Rightarrow> error + (oref \<times> memo \<times> oheap)) \<Rightarrow> bool" where
  "ocopies h0 recurse = (\<forall>pending r s r' s'.
     ogood h0 pending s \<longrightarrow> ref_addrs r \<subseteq> {..< length h0} \<longrightarrow> recurse r s = Inr (r', s') \<longrightarrow>
       ogood h0 pending s' \<and> map_of (fst s) \<subseteq>\<^sub>m map_of (fst s')
       \<and> take (length (snd s)) (snd s') = snd s
       \<and> r' = rn (map_of (fst s')) r \<and> ref_addrs r \<subseteq> dom (map_of (fst s')))"

text \<open>
  The entries that an override adds to a store or to \<open>data\<close> (none when the override is
  absent), the addresses of all the override arguments of a call, and a dictionary with
  such entries written over it when it is the one the override is for.
\<close>

definition store_override :: "oheap \<Rightarrow> addr list option \<Rightarrow> (oref, oref) pydict" where
  "store_override h override =
     (case override of
        None \<Rightarrow> []
      | Some cs \<Rightarrow> (case ostore_entries h cs of Inl e \<Rightarrow> [] | Inr entries \<Rightarrow> entries))"

definition data_override :: "(oref, oref) pydict option \<Rightarrow> (oref, oref) pydict" where
  "data_override d = (case d of None \<Rightarrow> [] | Some entries \<Rightarrow> entries)"

definition override_addrs ::
  "oref \<Rightarrow> addr list option \<Rightarrow> addr list option \<Rightarrow> (oref, oref) pydict option \<Rightarrow> addr set" where
  "override_addrs u cs hs d =
     ref_addrs u \<union> (case cs of None \<Rightarrow> {} | Some l \<Rightarrow> set l)
       \<union> (case hs of None \<Rightarrow> {} | Some l \<Rightarrow> set l) \<union> entries_addrs (data_override d)"

definition overlay ::
  "bool \<Rightarrow> (oref, oref) pydict \<Rightarrow> (oref, oref) pydict \<Rightarrow> (oref, oref) pydict" where
  "overlay here other entries = (if here then dict_update entries other else entries)"

text \<open>
  An example: the objects of a template with one header and a body group, followed by two
  objects that a caller holds, a Cookie object and a dictionary.
\<close>

definition example_heap :: oheap where
  "example_heap =
     [(TDict, [(OStr ''accept'', ORef 1)]),
      (TPlugin ''accept'' False False (\<lambda>u. Some ''text/html''), []),
      (TDict, []),
      (TDict, [(OStr ''data'', ORef 4)]),
      (TDict, [(OStr ''user'', OStr ''u'')]),
      (TPlugin ''sid'' False False (\<lambda>u. Some ''1''), []),
      (TDict, [(OStr ''id'', OStr ''1'')])]"

definition example_template :: request_object where
  "example_template =
     \<lparr>obj_method = ''PUT'', obj_url = OStr ''https://a.test'', obj_headers = 0,
      obj_cookies = 2, obj_data = 3\<rparr>"

section \<open>Cookies whose name is not known in advance\<close>

lemma pop_after_pop: "pop k d = Inr (v, d') \<Longrightarrow> pop k d' = Inl KeyError"
  by (auto simp: pop_def delete_conv' split: option.splits)

text \<open>
  C10: a cookie store whose first entry has \<^verbatim>\<open>name_not_known_in_advance\<close> set, resolves
  to an empty value and gets an empty line from the operator makes
  \<^verbatim>\<open>process_cookies\<close> raise \<^verbatim>\<open>KeyError\<close>: the key is popped once for the unknown
  name and the drop of the empty value pops the same key again.
\<close>

theorem process_cookies_unknown_name_KeyError:
  assumes "name_not_known_in_advance c"
    and "falsy (get_value c userdata)"
  shows "process_cookies ((key, c) # rest) userdata ([] # ins) = Inl KeyError"
proof -
  let ?d = "to_dict ((key, c) # rest)"
  have "map_of ?d key = Some (VPlugin c)"
    by (simp add: to_dict_def)
  then have first: "pop key ?d = Inr (VPlugin c, AList.delete key ?d)"
    by (simp add: pop_def)
  have second: "pop key (AList.delete key ?d) = Inl KeyError"
    using first by (rule pop_after_pop)
  have "cookie_body userdata (key, c) (?d, [] # ins) = Inl KeyError"
    using assms first second by (simp add: cookie_body_def value_or_prompt_def)
  then show ?thesis
    by (simp add: process_cookies_def)
qed

theorem process_cookies_unknown_name_KeyError_witness:
  "process_cookies [(''sid'', Plugin ''sid'' True False [] (\<lambda>u. None))] Map.empty [[]]
     = Inl KeyError"
proof -
  have "name_not_known_in_advance (Plugin ''sid'' True False [] (\<lambda>u. None))"
    by simp
  moreover have "falsy (get_value (Plugin ''sid'' True False [] (\<lambda>u. None)) Map.empty)"
    by (simp add: falsy_def)
  ultimately show ?thesis
    by (rule process_cookies_unknown_name_KeyError)
qed

section \<open>The injected user-agent header\<close>

lemma for_each_preserves:
  assumes "for_each body xs s = Inr s'"
    and "P s"
    and "\<And>x t t'. x \<in> set xs \<Longrightarrow> P t \<Longrightarrow> body x t = Inr t' \<Longrightarrow> P t'"
  shows "P s'"
  using assms
proof (induction xs arbitrary: s)
  case Nil
  then show ?case by simp
next
  case (Cons x xs)
  from Cons.prems(1) obtain t where step: "body x s = Inr t" and rest: "for_each body xs t = Inr s'"
    by (auto split: sum.splits)
  have "P t"
    using Cons.prems(3) [of x s t] Cons.prems(2) step by simp
  moreover have "P t'" if "y \<in> set xs" and "P u" and "body y u = Inr t'" for y u t'
    using Cons.prems(3) [of y u t'] that by simp
  ultimately show ?case
    using Cons.IH [of t] rest by blast
qed

lemma header_body_other_key:
  assumes "key \<noteq> k0" and "name h \<noteq> k0" and "lower (name h) \<noteq> k0"
    and "header_body userdata (key, h) (hdrs, ins) = Inr (hdrs', ins')"
  shows "map_of hdrs' k0 = map_of hdrs k0"
  using assms
  by (auto simp: header_body_def pop_def update_conv' delete_conv'
           split: if_splits sum.splits option.splits prod.splits)

text \<open>
  C4, as the code has it: the user-agent entry is written into the working mapping before
  the loop over the container, so it survives exactly when the loop does not touch that
  key. When no entry of the container has the key user-agent or a name that is, or
  lower-cases to, user-agent, every mapping that \<^verbatim>\<open>process_headers\<close> returns carries
  the run configuration's user agent.
\<close>

theorem process_headers_user_agent_kept:
  assumes untouched: "\<forall>(k, h) \<in> set raw_headers.
             k \<noteq> ''user-agent'' \<and> name h \<noteq> ''user-agent'' \<and> lower (name h) \<noteq> ''user-agent''"
    and returns: "process_headers raw_headers userdata pconfig ins = Inr (hdrs, ins')"
  shows "map_of hdrs ''user-agent'' = Some (VStr (user_agent pconfig))"
proof -
  let ?P = "\<lambda>s. map_of (fst s) ''user-agent'' = Some (VStr (user_agent pconfig))"
  let ?start = "(AList.update ''user-agent'' (VStr (user_agent pconfig)) (to_dict raw_headers), ins)"
  have loop: "for_each (header_body userdata) raw_headers ?start = Inr (hdrs, ins')"
    using returns by (simp add: process_headers_def)
  have init: "?P ?start"
    by (simp add: update_conv')
  have step: "?P t'" if "x \<in> set raw_headers" and "?P t" and "header_body userdata x t = Inr t'"
    for x t t'
  proof -
    obtain k h where x: "x = (k, h)" by (cases x)
    obtain d i where t: "t = (d, i)" by (cases t)
    obtain d' i' where t': "t' = (d', i')" by (cases t')
    have "k \<noteq> ''user-agent''" "name h \<noteq> ''user-agent''" "lower (name h) \<noteq> ''user-agent''"
      using untouched that(1) x by auto
    then have "map_of d' ''user-agent'' = map_of d ''user-agent''"
      using that(3) unfolding x t t' by (rule header_body_other_key)
    then show ?thesis
      using that(2) t t' by simp
  qed
  have "?P (hdrs, ins')"
    using loop init step by (rule for_each_preserves)
  then show ?thesis by simp
qed

theorem process_headers_user_agent_kept_witness:
  "process_headers [(''accept'', Plugin ''Accept'' False False [] (\<lambda>u. Some ''text/html''))]
     Map.empty
     \<lparr>user_agent = ''raider'', verify = True, use_proxy = False, proxy = [],
      active_user = Map.empty\<rparr> []
   = Inr ([(''accept'', VPlugin (Plugin ''Accept'' False False [] (\<lambda>u. Some ''text/html''))),
           (''user-agent'', VStr ''raider''), (''Accept'', VStr ''text/html'')], [])
   \<and> map_of [(''accept'', VPlugin (Plugin ''Accept'' False False [] (\<lambda>u. Some ''text/html''))),
              (''user-agent'', VStr ''raider''), (''Accept'', VStr ''text/html'')] ''user-agent''
     = Some (VStr ''raider'')"
proof -
  let ?raw = "[(''accept'', Plugin ''Accept'' False False [] (\<lambda>u. Some ''text/html''))]"
  let ?cfg = "\<lparr>user_agent = ''raider'', verify = True, use_proxy = False, proxy = [],
               active_user = Map.empty\<rparr>"
  have low: "lower ''Accept'' \<noteq> ''user-agent''"
    by code_simp
  have untouched: "\<forall>(k, h) \<in> set ?raw.
          k \<noteq> ''user-agent'' \<and> name h \<noteq> ''user-agent'' \<and> lower (name h) \<noteq> ''user-agent''"
    using low by simp
  have returns: "process_headers ?raw Map.empty ?cfg []
      = Inr ([(''accept'', VPlugin (Plugin ''Accept'' False False [] (\<lambda>u. Some ''text/html''))),
              (''user-agent'', VStr ''raider''), (''Accept'', VStr ''text/html'')], [])"
    by (simp add: process_headers_def header_body_def to_dict_def value_or_prompt_def falsy_def)
  from process_headers_user_agent_kept [OF untouched returns] returns
  show ?thesis by simp
qed

text \<open>
  C4 as stated fails: a container entry named user-agent is processed after the injection
  and replaces the injected value.
\<close>

theorem process_headers_user_agent_overridden:
  "process_headers [(''user-agent'', Plugin ''user-agent'' False False [] (\<lambda>u. Some ''curl''))]
     Map.empty
     \<lparr>user_agent = ''raider'', verify = True, use_proxy = False, proxy = [],
      active_user = Map.empty\<rparr> []
   = Inr ([(''user-agent'', VStr ''curl'')], [])"
  by (simp add: process_headers_def header_body_def to_dict_def value_or_prompt_def falsy_def)


section \<open>Dropping an entry whose value stays empty\<close>

lemma resolve_key_empty_KeyError:
  assumes "falsy (get_value p userdata)"
  shows "resolve_key userdata a p (h, [] # ins) = Inl KeyError"
proof (cases "pop (KPlugin p) (deref h a)")
  case (Inl e)
  then show ?thesis
    by (auto simp: resolve_key_def pop_def split: option.splits)
next
  case (Inr r)
  obtain v d1 where r: "r = (v, d1)" by (cases r)
  have "pop (KPlugin p) d1 = Inl KeyError"
    using Inr r pop_after_pop by fastforce
  then show ?thesis
    using assms Inr r by (simp add: resolve_key_def value_or_prompt_def)
qed

lemma header_unknown_name_KeyError:
  assumes "name_not_known_in_advance p" and "falsy (get_value p userdata)"
    and "lower (name p) = k"
  shows "header_body userdata (k, p) (hdrs, [] # ins) = Inl KeyError"
proof (cases "pop k hdrs")
  case (Inl e)
  then show ?thesis
    using assms(1) by (auto simp: header_body_def pop_def split: option.splits)
next
  case (Inr r)
  obtain v d1 where r: "r = (v, d1)" by (cases r)
  have "pop k d1 = Inl KeyError"
    using Inr r pop_after_pop by fastforce
  then show ?thesis
    using assms Inr r by (simp add: header_body_def value_or_prompt_def)
qed

lemma cookie_body_drops:
  assumes "\<not> name_not_known_in_advance c" and "falsy (get_value c userdata)"
    and "map_of d key = Some v"
  shows "cookie_body userdata (key, c) (d, [] # ins) = Inr (AList.delete key d, ins)"
  using assms by (simp add: cookie_body_def value_or_prompt_def pop_def)

lemma resolve_value_drops:
  assumes "falsy (get_value p userdata)" and "map_of (deref h a) key = Some v"
  shows "resolve_value userdata a key p (h, [] # ins)
           = Inr (h[a := AList.delete key (deref h a)], ins)"
  using assms by (simp add: resolve_value_def value_or_prompt_def pop_def)

text \<open>
  C1 at two inputs the code can receive. A header whose name is not known in advance and
  whose value stays empty after the prompt: the key is popped for the unknown name and
  popped again for the empty value. A body entry whose key and value are both Plugins and
  whose value stays empty: the value's drop pops the entry and the key's
  \<^verbatim>\<open>data.pop(key)\<close> finds it gone. In both, the resolution function raises
  \<^verbatim>\<open>KeyError\<close> instead of returning a mapping without the entry.
\<close>

theorem empty_value_drop_raises:
  "process_headers [(''x-token'', Plugin ''x-token'' True False [] (\<lambda>u. None))] Map.empty
     \<lparr>user_agent = ''raider'', verify = True, use_proxy = False, proxy = [],
      active_user = Map.empty\<rparr> [[]]
   = Inl KeyError
   \<and> process_data 1
       [(KStr ''data'', VStore 0)] Map.empty
       ([[(KPlugin (Plugin ''field'' False False [] (\<lambda>u. Some ''user'')),
           VPlugin (Plugin ''secret'' False False [] (\<lambda>u. None)))]], [[]])
     = Inl KeyError"
proof
  have low: "lower ''x-token'' = ''x-token''"
    by code_simp
  show "process_headers [(''x-token'', Plugin ''x-token'' True False [] (\<lambda>u. None))] Map.empty
     \<lparr>user_agent = ''raider'', verify = True, use_proxy = False, proxy = [],
      active_user = Map.empty\<rparr> [[]] = Inl KeyError"
    using low
    by (simp add: process_headers_def header_body_def to_dict_def value_or_prompt_def
          falsy_def pop_def)
  show "process_data 1
       [(KStr ''data'', VStore 0)] Map.empty
       ([[(KPlugin (Plugin ''field'' False False [] (\<lambda>u. Some ''user'')),
           VPlugin (Plugin ''secret'' False False [] (\<lambda>u. None)))]], [[]])
     = Inl KeyError"
    by (simp add: process_data_def group_body_def to_dict_copy_def traverse_body_def
          resolve_value_def resolve_key_def deref_def value_or_prompt_def falsy_def pop_def)
qed

text \<open>
  C2 at an input the code can receive: a body group with one entry whose key is a Plugin
  that resolves to nothing, with an empty answer to the prompt. \<^verbatim>\<open>traverse_dict\<close> has
  already taken the entry out with \<^verbatim>\<open>new_value = data.pop(key)\<close>, so the
  \<^verbatim>\<open>data.pop(key)\<close> that is to drop it raises \<^verbatim>\<open>KeyError\<close>.
\<close>

theorem empty_key_drop_raises:
  "process_data 1
     [(KStr ''data'', VStore 0)] Map.empty
     ([[(KPlugin (Plugin ''field'' False False [] (\<lambda>u. None)), VStr ''value'')]], [[]])
   = Inl KeyError"
  by (simp add: process_data_def group_body_def to_dict_copy_def traverse_body_def
        resolve_key_def deref_def value_or_prompt_def falsy_def pop_def)

section \<open>list_inputs and the body groups\<close>

lemma list_inputs_ignores_groups:
  assumes "\<forall>(k, v) \<in> set (data self). (\<exists>g. k = KStr g) \<and> (\<exists>a. v = VStore a)"
  shows "list_inputs self = list_inputs (self\<lparr>data := []\<rparr>)"
proof -
  have "fold (\<lambda>(key, value) inputs.
                 (let inputs' = (case key of
                                   KPlugin p \<Rightarrow> register (name p) p inputs
                                 | KStr k \<Rightarrow> inputs)
                  in (case value of
                        VPlugin p \<Rightarrow> register (name p) p inputs'
                      | VStr v \<Rightarrow> inputs'
                      | VDict d \<Rightarrow> inputs'
                      | VStore a \<Rightarrow> inputs'))) ds acc = acc"
    if "\<forall>(k, v) \<in> set ds. (\<exists>g. k = KStr g) \<and> (\<exists>a. v = VStore a)" for ds acc
    using that by (induction ds arbitrary: acc) auto
  then show ?thesis
    using assms by (simp add: list_inputs_def)
qed

text \<open>
  C3 at an input the code can receive: the Request of
  \<^verbatim>\<open>Request.put(url, data={"username": Plugin})\<close>. \<^verbatim>\<open>self.data\<close> maps the group
  name to a DataStore, so the loop over \<^verbatim>\<open>self.data.items()\<close> sees a string and a
  DataStore, never the Plugin inside, and \<^verbatim>\<open>list_inputs\<close> returns no input at all.
\<close>

theorem list_inputs_misses_body_plugin:
  "list_inputs \<lparr>method = ''PUT'', url = UStr ''https://example.test/login'', headers = [],
                cookies = [], data = [(KStr ''data'', VStore 0)], kwargs = [''data'']\<rparr> = []"
  by (simp add: list_inputs_def)

section \<open>Warnings of send\<close>

text \<open>
  C5 at an input the code can receive: the Request of
  \<^verbatim>\<open>Request.put(url, data={"a": "b"})\<close>, a single body group on a method other than
  GET. \<^verbatim>\<open>send\<close> completes and logs the warning that the groups cannot be used at the
  same time.
\<close>

theorem send_single_group_warns:
  "send (\<lambda>c h. Inr ''response'') (\<lambda>h v. []) 1
     \<lparr>user_agent = ''raider'', verify = True, use_proxy = False, proxy = [],
      active_user = Map.empty\<rparr>
     \<lparr>method = ''PUT'', url = UStr ''https://example.test/login'', headers = [],
      cookies = [], data = [(KStr ''data'', VStore 0)], kwargs = [''data'']\<rparr>
     ([[(KStr ''a'', VStr ''b'')]], [])
   = Inr (''response'',
          \<lparr>method = ''PUT'', url = UStr ''https://example.test/login'', headers = [],
           cookies = [], data = [(KStr ''data'', VStore 0)], kwargs = [''data'']\<rparr>,
          [SameTime ''PUT'' [''data'']],
          [[(KStr ''a'', VStr ''b'')], [(KStr ''a'', VStr ''b'')]], [])"
  by (simp add: send_def warnings_def body_attrs_def process_cookies_def process_headers_def
        to_dict_def process_data_def group_body_def to_dict_copy_def traverse_body_def
        deref_def)

section \<open>What send changes\<close>

lemma send_url_stored:
  assumes "send function urlencode depth pconfig self (h, ins) = Inr (r, self', ws, h', ins')"
    and "url self = UPlugin p"
  shows "url self' = (case get_value p (active_user pconfig) of None \<Rightarrow> UNone | Some v \<Rightarrow> UStr v)"
    and "method self' = method self" and "headers self' = headers self"
    and "cookies self' = cookies self" and "data self' = data self"
  using assms
  by (auto simp: send_def Let_def split: sum.splits prod.splits if_splits)

text \<open>
  C9 at an input the code can receive: the Request of
  \<^verbatim>\<open>Request.put(url, json={"user": {"token": Plugin}})\<close>. The DataStore of the group is
  the dictionary at address 0 and its nested dictionary is at address 1. The copy that
  \<^verbatim>\<open>process_data\<close> works on is shallow, so \<^verbatim>\<open>traverse_dict\<close> resolves the Plugin
  inside the Request's own nested dictionary: after \<^verbatim>\<open>send\<close>, address 1 holds the
  resolved string.
\<close>

theorem send_changes_nested_body:
  "send (\<lambda>c h. Inr ''response'') (\<lambda>h v. []) 2
     \<lparr>user_agent = ''raider'', verify = True, use_proxy = False, proxy = [],
      active_user = [''token'' \<mapsto> ''s3cr3t'']\<rparr>
     \<lparr>method = ''PUT'', url = UStr ''https://example.test/login'', headers = [],
      cookies = [], data = [(KStr ''json'', VStore 0)], kwargs = [''json'']\<rparr>
     ([[(KStr ''user'', VDict 1)],
       [(KStr ''token'', VPlugin (Plugin ''token'' False False [] (\<lambda>u. u ''token'')))]], [])
   = Inr (''response'',
          \<lparr>method = ''PUT'', url = UStr ''https://example.test/login'', headers = [],
           cookies = [], data = [(KStr ''json'', VStore 0)], kwargs = [''json'']\<rparr>,
          [SameTime ''PUT'' [''json'']],
          [[(KStr ''user'', VDict 1)],
           [(KStr ''token'', VStr ''s3cr3t'')],
           [(KStr ''user'', VDict 1)]], [])"
  by (simp add: send_def warnings_def body_attrs_def process_cookies_def process_headers_def
        to_dict_def process_data_def group_body_def to_dict_copy_def traverse_body_def
        resolve_value_def deref_def value_or_prompt_def falsy_def numeral_2_eq_2)

section \<open>Containers of literals\<close>

lemma update_first_occurrence:
  "k \<notin> fst ` set xs \<Longrightarrow> AList.update k v (xs @ (k, w) # ys) = xs @ (k, v) # ys"
  by (induction xs) auto

lemma update_absent_appends:
  "k \<notin> fst ` set xs \<Longrightarrow> AList.update k v xs = xs @ [(k, v)]"
  by (induction xs) auto

lemma literal_loop:
  assumes body: "\<And>k v d i. v \<noteq> [] \<Longrightarrow>
            body (k, literal_plugin k v) (d, i) = Inr (AList.update k (VStr v) d, i)"
    and "distinct (map fst (m1 @ m2))"
    and "\<forall>(k, v) \<in> set m2. v \<noteq> []"
    and "map fst rest = map fst m2"
  shows "for_each body (literal_store m2) (literal_mapping m1 @ rest @ post, ins)
           = Inr (literal_mapping (m1 @ m2) @ post, ins)"
  using assms(2-)
proof (induction m2 arbitrary: m1 rest)
  case Nil
  then show ?case by (simp add: literal_store_def)
next
  case (Cons e m2)
  obtain k v where e: "e = (k, v)" by (cases e)
  from Cons.prems(3) e obtain w rest' where rest: "rest = (k, w) # rest'"
    and rest': "map fst rest' = map fst m2"
    by (cases rest) auto
  have v: "v \<noteq> []"
    using Cons.prems(2) e by simp
  have "fst ` set (literal_mapping m1) = fst ` set m1"
    by (force simp: literal_mapping_def)
  then have fresh: "k \<notin> fst ` set (literal_mapping m1)"
    using Cons.prems(1) e by simp
  have step: "body (k, literal_plugin k v) (literal_mapping m1 @ rest @ post, ins)
                = Inr (literal_mapping (m1 @ [(k, v)]) @ rest' @ post, ins)"
    using body [OF v] rest update_first_occurrence [OF fresh]
    by (simp add: literal_mapping_def)
  have dist: "distinct (map fst ((m1 @ [(k, v)]) @ m2))"
    using Cons.prems(1) e by simp
  have nonempty: "\<forall>(k, v) \<in> set m2. v \<noteq> []"
    using Cons.prems(2) by simp
  have "for_each body (literal_store m2) (literal_mapping (m1 @ [(k, v)]) @ rest' @ post, ins)
          = Inr (literal_mapping ((m1 @ [(k, v)]) @ m2) @ post, ins)"
    using dist nonempty rest' by (rule Cons.IH)
  then show ?case
    using step e by (simp add: literal_store_def)
qed

lemma cookie_body_literal:
  "v \<noteq> [] \<Longrightarrow> cookie_body userdata (k, literal_plugin k v) (d, i)
                 = Inr (AList.update k (VStr v) d, i)"
  by (simp add: cookie_body_def literal_plugin_def value_or_prompt_def falsy_def)

lemma header_body_literal:
  "v \<noteq> [] \<Longrightarrow> header_body userdata (k, literal_plugin k v) (d, i)
                 = Inr (AList.update k (VStr v) d, i)"
  by (simp add: header_body_def literal_plugin_def value_or_prompt_def falsy_def)

lemma keys_to_dict_literal: "map fst (to_dict (literal_store m)) = map fst m"
  by (induction m) (auto simp: to_dict_def literal_store_def)

lemma process_cookies_literal:
  assumes "distinct (map fst m)" and "\<forall>(k, v) \<in> set m. v \<noteq> []"
  shows "process_cookies (literal_store m) userdata ins = Inr (literal_mapping m, ins)"
proof -
  have "for_each (cookie_body userdata) (literal_store m)
          (literal_mapping [] @ to_dict (literal_store m) @ [], ins)
        = Inr (literal_mapping ([] @ m) @ [], ins)"
    using assms by (intro literal_loop cookie_body_literal) (simp_all add: keys_to_dict_literal)
  then show ?thesis
    by (simp add: process_cookies_def literal_mapping_def)
qed

lemma process_headers_literal:
  assumes "distinct (map fst m)" and "\<forall>(k, v) \<in> set m. v \<noteq> []"
  shows "process_headers (literal_store m) userdata pconfig ins
           = Inr (literal_mapping m @
                    (if ''user-agent'' \<in> fst ` set m then []
                     else [(''user-agent'', VStr (user_agent pconfig))]), ins)"
proof (cases "''user-agent'' \<in> fst ` set m")
  case True
  let ?start = "AList.update ''user-agent'' (VStr (user_agent pconfig)) (to_dict (literal_store m))"
  have keys: "map fst ?start = map fst m"
    using True by (simp add: update_keys keys_to_dict_literal)
  have "for_each (header_body userdata) (literal_store m)
          (literal_mapping [] @ ?start @ [], ins)
        = Inr (literal_mapping ([] @ m) @ [], ins)"
    using assms keys by (intro literal_loop header_body_literal) simp_all
  then show ?thesis
    using True by (simp add: process_headers_def literal_mapping_def)
next
  case False
  then have "''user-agent'' \<notin> fst ` set (to_dict (literal_store m))"
    using keys_to_dict_literal [of m] by (metis set_map)
  then have start: "AList.update ''user-agent'' (VStr (user_agent pconfig)) (to_dict (literal_store m))
      = to_dict (literal_store m) @ [(''user-agent'', VStr (user_agent pconfig))]"
    by (rule update_absent_appends)
  have "for_each (header_body userdata) (literal_store m)
          (literal_mapping [] @ to_dict (literal_store m)
             @ [(''user-agent'', VStr (user_agent pconfig))], ins)
        = Inr (literal_mapping ([] @ m) @ [(''user-agent'', VStr (user_agent pconfig))], ins)"
    using assms by (intro literal_loop header_body_literal) (simp_all add: keys_to_dict_literal)
  then show ?thesis
    using False start by (simp add: process_headers_def literal_mapping_def)
qed

lemma for_each_skip:
  "\<forall>x \<in> set xs. body x s = Inr s \<Longrightarrow> for_each body xs s = Inr s"
  by (induction xs) auto

lemma map_of_literal_entry:
  "(k, w) \<in> set m \<Longrightarrow> \<exists>v. map_of (literal_body m) (KStr k) = Some (VStr v)"
  by (induction m) (auto simp: literal_body_def)

lemma map_of_literal_body:
  assumes "key \<in> fst ` set (literal_body m)"
  shows "\<exists>k v. key = KStr k \<and> map_of (literal_body m) key = Some (VStr v)"
proof -
  from assms obtain k w where "key = KStr k" and "(k, w) \<in> set m"
    by (auto simp: literal_body_def)
  then show ?thesis
    using map_of_literal_entry by blast
qed

lemma traverse_dict_literal:
  assumes "deref h a = literal_body m"
  shows "traverse_dict (Suc depth) userdata a (h, ins) = Inr (h, ins)"
proof -
  have "traverse_body (traverse_dict depth userdata) userdata a key (h, ins) = Inr (h, ins)"
    if "key \<in> set (map fst (literal_body m))" for key
  proof -
    from that obtain k v where "key = KStr k" and "map_of (literal_body m) key = Some (VStr v)"
      using map_of_literal_body [of key m] by auto
    then show ?thesis
      using assms by (simp add: traverse_body_def)
  qed
  then show ?thesis
    using assms by (simp add: for_each_skip)
qed

lemma process_data_literal:
  assumes "deref h a = literal_body m"
  shows "process_data (Suc depth) [(g, VStore a)] userdata (h, ins)
           = Inr ([(g, VDict (length h))], h @ [literal_body m], ins)"
proof -
  have "deref (h @ [literal_body m]) (length h) = literal_body m"
    by (simp add: deref_def)
  then have "traverse_dict (Suc depth) userdata (length h) (h @ [literal_body m], ins)
               = Inr (h @ [literal_body m], ins)"
    by (rule traverse_dict_literal)
  then show ?thesis
    using assms by (simp add: process_data_def group_body_def to_dict_copy_def)
qed

lemma repeat_call_same:
  assumes "f s = Inr (x, s)"
  shows "repeat_call n f s = Inr (replicate n x, s)"
  using assms by (induction n) auto

lemma repeat_process_data_literal:
  assumes "deref h a = literal_body m"
  shows "repeat_call n (process_data (Suc depth) [(g, VStore a)] userdata) (h, ins)
           = Inr (map (\<lambda>i. [(g, VDict (length h + i))]) [0..<n],
                  h @ replicate n (literal_body m), ins)"
  using assms
proof (induction n arbitrary: h)
  case 0
  then show ?case by simp
next
  case (Suc n)
  let ?h = "h @ [literal_body m]"
  have first: "process_data (Suc depth) [(g, VStore a)] userdata (h, ins)
                 = Inr ([(g, VDict (length h))], ?h, ins)"
    using Suc.prems by (rule process_data_literal)
  have "deref ?h a = literal_body m"
    using Suc.prems by (auto simp: deref_def nth_append split: if_splits)
  then have rest: "repeat_call n (process_data (Suc depth) [(g, VStore a)] userdata) (?h, ins)
      = Inr (map (\<lambda>i. [(g, VDict (length ?h + i))]) [0..<n],
             ?h @ replicate n (literal_body m), ins)"
    by (rule Suc.IH)
  have idx: "map (\<lambda>i. [(g, VDict (length h + i))]) [0..<Suc n]
      = [(g, VDict (length h))] # map (\<lambda>i. [(g, VDict (length ?h + i))]) [0..<n]"
    by (simp add: upt_rec [of 0 "Suc n"] map_Suc_upt [symmetric] del: upt_Suc)
  show ?case
    using first rest unfolding idx by (simp add: replicate_app_Cons_same)
qed

lemma literal_header_store_lower:
  "\<forall>(k, v) \<in> set m. lower k = k \<Longrightarrow> literal_header_store m = literal_store m"
  by (induction m) (auto simp: literal_header_store_def literal_store_def)

text \<open>
  C8, as the code has it. A cookie store of literals with non-empty values resolves to its
  own name-to-value mapping. A header store of literals with non-empty values and
  lower-case names resolves to its mapping, followed by the injected user-agent entry when
  the store has none of its own. A body group whose keys and values are strings resolves
  to a new dictionary with the group's own entries, at the next free address. No call
  reads a line from the operator or changes the container, so \<open>n\<close> calls in a row return
  the same mapping \<open>n\<close> times.
\<close>

theorem literal_containers_resolve_to_themselves:
  assumes "distinct (map fst m)" and "\<forall>(k, v) \<in> set m. v \<noteq> []"
    and "distinct (map fst hm)" and "\<forall>(k, v) \<in> set hm. v \<noteq> [] \<and> lower k = k"
    and "deref h a = literal_body b"
  shows "repeat_call n (process_cookies (literal_store m) userdata) ins
           = Inr (replicate n (literal_mapping m), ins)
       \<and> repeat_call n (process_headers (literal_header_store hm) userdata pconfig) ins
           = Inr (replicate n
                    (literal_mapping hm @
                       (if ''user-agent'' \<in> fst ` set hm then []
                        else [(''user-agent'', VStr (user_agent pconfig))])), ins)
       \<and> repeat_call n (process_data (Suc depth) [(g, VStore a)] userdata) (h, ins)
           = Inr (map (\<lambda>i. [(g, VDict (length h + i))]) [0..<n],
                  h @ replicate n (literal_body b), ins)"
proof (intro conjI)
  show "repeat_call n (process_cookies (literal_store m) userdata) ins
          = Inr (replicate n (literal_mapping m), ins)"
    using assms(1,2) by (intro repeat_call_same process_cookies_literal)
  have keyed: "literal_header_store hm = literal_store hm"
    using assms(4) by (intro literal_header_store_lower) auto
  have nonempty: "\<forall>(k, v) \<in> set hm. v \<noteq> []"
    using assms(4) by auto
  show "repeat_call n (process_headers (literal_header_store hm) userdata pconfig) ins
          = Inr (replicate n
                   (literal_mapping hm @
                      (if ''user-agent'' \<in> fst ` set hm then []
                       else [(''user-agent'', VStr (user_agent pconfig))])), ins)"
    unfolding keyed using assms(3) nonempty
    by (intro repeat_call_same process_headers_literal)
  show "repeat_call n (process_data (Suc depth) [(g, VStore a)] userdata) (h, ins)
          = Inr (map (\<lambda>i. [(g, VDict (length h + i))]) [0..<n],
                 h @ replicate n (literal_body b), ins)"
    using assms(5) by (rule repeat_process_data_literal)
qed

theorem literal_containers_resolve_to_themselves_witness:
  "deref [[(KStr ''a'', VStr ''b'')]] 0 = literal_body [(''a'', ''b'')]
   \<and> repeat_call 2
         (process_cookies (literal_store [(''SID'', ''1''), (''lang'', ''en'')]) Map.empty) []
       = Inr ([[(''SID'', VStr ''1''), (''lang'', VStr ''en'')],
               [(''SID'', VStr ''1''), (''lang'', VStr ''en'')]], [])
   \<and> repeat_call 2
         (process_headers
            (literal_header_store [(''accept'', ''text/html''), (''host'', ''a.test'')])
            Map.empty
            \<lparr>user_agent = ''raider'', verify = True, use_proxy = False, proxy = [],
             active_user = Map.empty\<rparr>) []
       = Inr ([[(''accept'', VStr ''text/html''), (''host'', VStr ''a.test''),
                (''user-agent'', VStr ''raider'')],
               [(''accept'', VStr ''text/html''), (''host'', VStr ''a.test''),
                (''user-agent'', VStr ''raider'')]], [])
   \<and> repeat_call 2 (process_data (Suc 0) [(KStr ''data'', VStore 0)] Map.empty)
         ([[(KStr ''a'', VStr ''b'')]], [])
       = Inr ([[(KStr ''data'', VDict 1)], [(KStr ''data'', VDict 2)]],
              [[(KStr ''a'', VStr ''b'')], [(KStr ''a'', VStr ''b'')], [(KStr ''a'', VStr ''b'')]],
              [])"
proof -
  let ?m = "[(''SID'', ''1''), (''lang'', ''en'')]"
  let ?hm = "[(''accept'', ''text/html''), (''host'', ''a.test'')]"
  have low: "lower ''accept'' = ''accept''" "lower ''host'' = ''host''"
    by code_simp+
  have h1: "distinct (map fst ?m)"
    by simp
  have h2: "\<forall>(k, v) \<in> set ?m. v \<noteq> []"
    by simp
  have h3: "distinct (map fst ?hm)"
    by simp
  have h4: "\<forall>(k, v) \<in> set ?hm. v \<noteq> [] \<and> lower k = k"
    using low by simp
  have h5: "deref [[(KStr ''a'', VStr ''b'')]] 0 = literal_body [(''a'', ''b'')]"
    by (simp add: deref_def literal_body_def)
  have two: "[0..<2] = [0, 1]" "replicate 2 x = [x, x]" for x :: 'a
    by (simp_all add: numeral_2_eq_2)
  from literal_containers_resolve_to_themselves
         [OF h1 h2 h3 h4 h5, where n = 2 and userdata = Map.empty and ins = "[]" and depth = 0
            and g = "KStr ''data''"
            and pconfig = "\<lparr>user_agent = ''raider'', verify = True, use_proxy = False,
                            proxy = [], active_user = Map.empty\<rparr>"]
  show ?thesis
    using h5 by (simp add: two literal_mapping_def literal_body_def)
qed

text \<open>
  C8 as stated fails. The mapping returned for a header store carries the injected
  user-agent entry, which the container does not have; a cookie whose literal value is
  the empty string is prompted for and, on an empty answer, dropped; and for a header
  whose name has a capital letter the returned mapping has the resolved value under the
  name as written and still holds the Header object under the store's lower-case key.
\<close>

theorem literal_containers_not_exact:
  "process_headers (literal_header_store []) Map.empty
     \<lparr>user_agent = ''raider'', verify = True, use_proxy = False, proxy = [],
      active_user = Map.empty\<rparr> []
     = Inr ([(''user-agent'', VStr ''raider'')], [])
   \<and> literal_mapping [] \<noteq> [(''user-agent'', VStr ''raider'')]
   \<and> process_cookies (literal_store [(''sid'', [])]) Map.empty [[]] = Inr ([], [])
   \<and> literal_mapping [(''sid'', [])] \<noteq> []
   \<and> process_headers (literal_header_store [(''Accept'', ''text/html'')]) Map.empty
       \<lparr>user_agent = ''raider'', verify = True, use_proxy = False, proxy = [],
        active_user = Map.empty\<rparr> []
     = Inr ([(''accept'', VPlugin (literal_plugin ''Accept'' ''text/html'')),
             (''user-agent'', VStr ''raider''), (''Accept'', VStr ''text/html'')], [])"
proof -
  have low: "lower ''Accept'' = ''accept''"
    by code_simp
  show ?thesis
    using low
    by (simp add: process_headers_def process_cookies_def cookie_body_def header_body_def
          literal_store_def literal_header_store_def literal_mapping_def literal_plugin_def
          to_dict_def value_or_prompt_def falsy_def pop_def)
qed

section \<open>Template: overrides\<close>

lemma map_of_merge:
  "distinct (map fst other) \<Longrightarrow> map_of (merge base other) = map_of base ++ map_of other"
proof (induction other arbitrary: base)
  case Nil
  then show ?case by (simp add: merge_def)
next
  case (Cons e other)
  obtain k p where e: "e = (k, p)" by (cases e)
  have ih: "map_of (merge (AList.update k p base) other)
          = map_of (AList.update k p base) ++ map_of other"
    using Cons.prems by (intro Cons.IH) simp
  have notin: "k \<notin> dom (map_of other)"
    using Cons.prems e by (simp add: dom_map_of_conv_image_fst)
  have "merge base (e # other) = merge (AList.update k p base) other"
    using e by (simp add: merge_def)
  then have "map_of (merge base (e # other)) = (map_of base)(k \<mapsto> p) ++ map_of other"
    using ih by (simp add: update_conv')
  also have "\<dots> = (map_of base ++ map_of other)(k \<mapsto> p)"
    using notin by (rule map_add_upd_left)
  also have "\<dots> = map_of base ++ (map_of other)(k \<mapsto> p)"
    by (rule map_add_upd [symmetric])
  also have "\<dots> = map_of base ++ map_of (e # other)"
    using e by simp
  finally show ?case .
qed

lemma distinct_new_store: "distinct (map fst (new_store items))"
proof -
  have "distinct (map fst d) \<Longrightarrow>
          distinct (map fst (fold (\<lambda>p d. AList.update (name p) p d) items d))" for d
    by (induction items arbitrary: d) (simp_all add: distinct_update)
  then show ?thesis
    by (simp add: new_store_def)
qed

lemma keys_update: "fst ` set (AList.update k v d) = insert k (fst ` set d)"
  by (induction d) auto

lemma keys_new_store: "fst ` set (new_store items) = name ` set items"
proof -
  have "fst ` set (fold (\<lambda>p d. AList.update (name p) p d) items d)
          = fst ` set d \<union> name ` set items" for d :: store
    by (induction items arbitrary: d) (simp_all add: keys_update)
  then show ?thesis
    by (simp add: new_store_def)
qed

lemma deepcopy_request_fields:
  assumes "deepcopy_request depth self h = Inr (t, h')"
  shows "method t = method self" and "url t = url self"
    and "cookies t = cookies self" and "headers t = headers self"
  using assms by (auto simp: deepcopy_request_def split: sum.splits prod.splits)

text \<open>
  C7, as the code has it. An override takes effect when it is true in Python's sense: a
  non-empty method string, a Plugin or a non-empty url string, a non-empty list of cookies
  or headers. Then the method or the url of the result is the override, and the cookies
  and headers of the result are the template's entries overlaid with the override's
  entries, each under its name: the override wins on a name collision and the other
  entries of the template are kept. An argument that is absent or empty leaves the
  template's own value in the result.
\<close>

theorem template_call_overrides:
  assumes "template_call depth self m u cs hs d h = Inr (t, h')"
  shows "(\<forall>x. m = Some x \<and> x \<noteq> [] \<longrightarrow> method t = x)
       \<and> (truthy_url u \<longrightarrow> url t = u)
       \<and> (\<forall>c. cs = Some c \<and> c \<noteq> [] \<longrightarrow>
             map_of (cookies t) = map_of (cookies self) ++ map_of (new_store c)
             \<and> fst ` set (new_store c) = name ` set c)
       \<and> (\<forall>c. hs = Some c \<and> c \<noteq> [] \<longrightarrow>
             map_of (headers t) = map_of (headers self) ++ map_of (new_store c)
             \<and> fst ` set (new_store c) = name ` set c)
       \<and> (m = None \<or> m = Some [] \<longrightarrow> method t = method self)
       \<and> (u = UNone \<or> u = UStr [] \<longrightarrow> url t = url self)
       \<and> (cs = None \<or> cs = Some [] \<longrightarrow> cookies t = cookies self)
       \<and> (hs = None \<or> hs = Some [] \<longrightarrow> headers t = headers self)"
proof -
  obtain t0 h0 where copy: "deepcopy_request depth self h = Inr (t0, h0)"
    using assms by (cases "deepcopy_request depth self h") (auto simp: template_call_def)
  note same = deepcopy_request_fields [OF copy]
  define t1 where "t1 = (case m of
                       None \<Rightarrow> t0
                     | Some x \<Rightarrow> if x \<noteq> [] then t0\<lparr>method := x\<rparr> else t0)"
  define t2 where "t2 = (if truthy_url u then t1\<lparr>url := u\<rparr> else t1)"
  define t3 where "t3 = (case cs of
                       None \<Rightarrow> t2
                     | Some c \<Rightarrow>
                         if c \<noteq> [] then t2\<lparr>cookies := merge (cookies t2) (new_store c)\<rparr>
                         else t2)"
  define t4 where "t4 = (case hs of
                       None \<Rightarrow> t3
                     | Some c \<Rightarrow>
                         if c \<noteq> [] then t3\<lparr>headers := merge (headers t3) (new_store c)\<rparr>
                         else t3)"
  define t5 where "t5 = (case d of
                 None \<Rightarrow> t4
               | Some b \<Rightarrow> if b \<noteq> [] then t4\<lparr>data := dict_update (data t4) b\<rparr> else t4)"
  have "template_call depth self m u cs hs d h = Inr (t5, h0)"
    unfolding template_call_def copy t5_def t4_def t3_def t2_def t1_def Let_def by simp
  then have t: "t = t5"
    using assms by simp
  have c1: "cookies t1 = cookies self" "headers t1 = headers self"
    using same by (simp_all add: t1_def split: option.splits)
  have c2: "cookies t2 = cookies self" "headers t2 = headers self" "method t2 = method t1"
    using c1 by (simp_all add: t2_def)
  have c3: "headers t3 = headers self" "method t3 = method t1" "url t3 = url t2"
    using c2 by (simp_all add: t3_def split: option.splits)
  have c4: "cookies t4 = cookies t3" "method t4 = method t1" "url t4 = url t2"
    using c3 by (simp_all add: t4_def split: option.splits)
  have c5: "cookies t5 = cookies t3" "method t5 = method t1" "url t5 = url t2"
    "headers t5 = headers t4"
    using c4 by (simp_all add: t5_def split: option.splits)
  have A: "method t = x" if "m = Some x" "x \<noteq> []" for x
    using that t c5 by (simp add: t1_def)
  have B: "url t = u" if "truthy_url u"
    using that t c5 by (simp add: t2_def)
  have C: "map_of (cookies t) = map_of (cookies self) ++ map_of (new_store c)"
    if "cs = Some c" "c \<noteq> []" for c
    using that t c5 c2 map_of_merge [OF distinct_new_store, of "cookies self" c]
    by (simp add: t3_def)
  have D: "map_of (headers t) = map_of (headers self) ++ map_of (new_store c)"
    if "hs = Some c" "c \<noteq> []" for c
    using that t c5 c3 map_of_merge [OF distinct_new_store, of "headers self" c]
    by (simp add: t4_def)
  have E: "method t = method self" if "m = None \<or> m = Some []"
    using that t c5 same(1) by (auto simp: t1_def)
  have F: "url t = url self" if "u = UNone \<or> u = UStr []"
  proof -
    have "url t1 = url self"
      using same(2) by (simp add: t1_def split: option.splits)
    then show ?thesis
      using that t c5 by (auto simp: t2_def truthy_url_def)
  qed
  have G: "cookies t = cookies self" if "cs = None \<or> cs = Some []"
    using that t c5 c2 by (auto simp: t3_def)
  have H: "headers t = headers self" if "hs = None \<or> hs = Some []"
    using that t c5 c3 by (auto simp: t4_def)
  show ?thesis
    using A B C D E F G H keys_new_store by (intro conjI allI impI) auto
qed

theorem template_call_overrides_witness:
  "template_call 1
     \<lparr>method = ''GET'', url = UStr ''https://a.test'',
      headers = [(''accept'', literal_plugin ''accept'' ''text/html'')],
      cookies = [(''sid'', literal_plugin ''sid'' ''1'')], data = [],
      kwargs = [''cookies'', ''headers'', ''data'']\<rparr>
     (Some ''PUT'') (UStr ''https://b.test'')
     (Some [literal_plugin ''sid'' ''2'', literal_plugin ''lang'' ''en''])
     (Some [literal_plugin ''host'' ''b.test'']) None []
   = Inr (\<lparr>method = ''PUT'', url = UStr ''https://b.test'',
           headers = [(''accept'', literal_plugin ''accept'' ''text/html''),
                      (''host'', literal_plugin ''host'' ''b.test'')],
           cookies = [(''sid'', literal_plugin ''sid'' ''2''),
                      (''lang'', literal_plugin ''lang'' ''en'')], data = [],
           kwargs = [''cookies'', ''headers'', ''data'']\<rparr>, [])
   \<and> map_of [(''accept'', literal_plugin ''accept'' ''text/html''),
              (''host'', literal_plugin ''host'' ''b.test'')]
     = map_of [(''accept'', literal_plugin ''accept'' ''text/html'')]
         ++ map_of (new_store [literal_plugin ''host'' ''b.test''])
   \<and> map_of [(''sid'', literal_plugin ''sid'' ''2''), (''lang'', literal_plugin ''lang'' ''en'')]
     = map_of [(''sid'', literal_plugin ''sid'' ''1'')]
         ++ map_of (new_store [literal_plugin ''sid'' ''2'', literal_plugin ''lang'' ''en''])"
proof -
  let ?T = "\<lparr>method = ''GET'', url = UStr ''https://a.test'',
      headers = [(''accept'', literal_plugin ''accept'' ''text/html'')],
      cookies = [(''sid'', literal_plugin ''sid'' ''1'')], data = [],
      kwargs = [''cookies'', ''headers'', ''data'']\<rparr>"
  let ?R = "\<lparr>method = ''PUT'', url = UStr ''https://b.test'',
           headers = [(''accept'', literal_plugin ''accept'' ''text/html''),
                      (''host'', literal_plugin ''host'' ''b.test'')],
           cookies = [(''sid'', literal_plugin ''sid'' ''2''),
                      (''lang'', literal_plugin ''lang'' ''en'')], data = [],
           kwargs = [''cookies'', ''headers'', ''data'']\<rparr>"
  have call: "template_call 1 ?T (Some ''PUT'') (UStr ''https://b.test'')
     (Some [literal_plugin ''sid'' ''2'', literal_plugin ''lang'' ''en''])
     (Some [literal_plugin ''host'' ''b.test'']) None [] = Inr (?R, [])"
    by (simp add: template_call_def deepcopy_request_def truthy_url_def merge_def
          new_store_def literal_plugin_def)
  from template_call_overrides [OF call] call show ?thesis
    by simp
qed

text \<open>
  C7 as stated fails for an override that is false in Python's sense: called with the
  empty string for the method and for the url, the template returns its own method and
  url.
\<close>

theorem template_call_empty_override_ignored:
  "template_call 1
     \<lparr>method = ''GET'', url = UStr ''https://a.test'', headers = [], cookies = [], data = [],
      kwargs = [''cookies'', ''headers'', ''data'']\<rparr>
     (Some []) (UStr []) None None None []
   = Inr (\<lparr>method = ''GET'', url = UStr ''https://a.test'', headers = [], cookies = [],
           data = [], kwargs = [''cookies'', ''headers'', ''data'']\<rparr>, [])"
  by (simp add: template_call_def deepcopy_request_def truthy_url_def)

section \<open>Template: what an instance shares\<close>

lemma rn_stable:
  "f \<subseteq>\<^sub>m g \<Longrightarrow> ref_addrs r \<subseteq> dom f \<Longrightarrow> rn g r = rn f r"
  by (cases r) (auto simp: map_le_def dom_def split: option.splits)

lemma entries_addrs_Cons:
  "entries_addrs ((k, v) # d) = ref_addrs k \<union> ref_addrs v \<union> entries_addrs d"
  by (auto simp: entries_addrs_def)

lemma entries_addrs_Nil: "entries_addrs [] = {}"
  by (simp add: entries_addrs_def)

lemma entries_addrs_append:
  "entries_addrs (d1 @ d2) = entries_addrs d1 \<union> entries_addrs d2"
  by (auto simp: entries_addrs_def)

lemma rn_entries_stable:
  "f \<subseteq>\<^sub>m g \<Longrightarrow> entries_addrs d \<subseteq> dom f \<Longrightarrow> rn_entries g d = rn_entries f d"
proof (induction d)
  case Nil
  then show ?case by (simp add: rn_entries_def)
next
  case (Cons e d)
  obtain k v where e: "e = (k, v)" by (cases e)
  have "rn g k = rn f k" "rn g v = rn f v"
    using Cons.prems e by (auto intro!: rn_stable simp: entries_addrs_Cons)
  moreover have "rn_entries g d = rn_entries f d"
    using Cons e by (simp add: entries_addrs_Cons)
  ultimately show ?case
    using e by (simp add: rn_entries_def)
qed

lemma rn_obj_stable:
  "f \<subseteq>\<^sub>m g \<Longrightarrow> obj_addrs ob \<subseteq> dom f \<Longrightarrow> rn_obj g ob = rn_obj f ob"
  by (simp add: rn_obj_def obj_addrs_def rn_entries_stable)

lemma rn_inject:
  assumes inj: "\<forall>a b y. f a = Some y \<and> f b = Some y \<longrightarrow> a = b"
    and "ref_addrs r1 \<subseteq> dom f" and "ref_addrs r2 \<subseteq> dom f"
    and "rn f r1 = rn f r2"
  shows "r1 = r2"
  using assms by (cases r1; cases r2) (auto split: option.splits)

lemma rn_addrs: "ref_addrs r \<subseteq> dom f \<Longrightarrow> ref_addrs (rn f r) \<subseteq> ran f"
  by (cases r) (auto simp: ran_def split: option.splits)

lemma rn_entries_addrs:
  "entries_addrs d \<subseteq> dom f \<Longrightarrow> entries_addrs (rn_entries f d) \<subseteq> ran f"
proof (induction d)
  case Nil
  then show ?case by (simp add: rn_entries_def entries_addrs_Nil)
next
  case (Cons e d)
  obtain k v where e: "e = (k, v)" by (cases e)
  have "ref_addrs (rn f k) \<subseteq> ran f" "ref_addrs (rn f v) \<subseteq> ran f"
    using Cons.prems e by (auto intro!: rn_addrs simp: entries_addrs_Cons)
  moreover have "entries_addrs (rn_entries f d) \<subseteq> ran f"
    using Cons e by (simp add: entries_addrs_Cons)
  ultimately show ?case
    using e by (simp add: rn_entries_def entries_addrs_Cons)
qed

lemma rn_entries_append: "rn_entries f (d1 @ d2) = rn_entries f d1 @ rn_entries f d2"
  by (simp add: rn_entries_def)

lemma rn_keys_fresh:
  assumes inj: "\<forall>a b y. f a = Some y \<and> f b = Some y \<longrightarrow> a = b"
    and "entries_addrs d \<subseteq> dom f" and "ref_addrs k \<subseteq> dom f"
    and "k \<notin> fst ` set d"
  shows "rn f k \<notin> fst ` set (rn_entries f d)"
proof
  assume "rn f k \<in> fst ` set (rn_entries f d)"
  then obtain k0 v0 where in_d: "(k0, v0) \<in> set d" and eq: "rn f k = rn f k0"
    by (auto simp: rn_entries_def)
  have "ref_addrs k0 \<subseteq> dom f"
    using in_d assms(2) by (auto simp: entries_addrs_def)
  then have "k = k0"
    using rn_inject [OF inj assms(3) _ eq] by simp
  then show False
    using in_d assms(4) by force
qed


lemma ogoodD:
  assumes "ogood h0 P (memo, h)"
  shows "length h0 \<le> length h" and "take (length h0) h = h0"
    and "\<And>a b y. map_of memo a = Some y \<Longrightarrow> map_of memo b = Some y \<Longrightarrow> a = b"
    and "dom (map_of memo) \<subseteq> {..< length h0}"
    and "ran (map_of memo) = {length h0 ..< length h}"
    and "\<And>a y. map_of memo a = Some y \<Longrightarrow> a \<notin> P \<Longrightarrow> h ! y = rn_obj (map_of memo) (h0 ! a)"
    and "\<And>a y. map_of memo a = Some y \<Longrightarrow> a \<notin> P \<Longrightarrow> obj_addrs (h0 ! a) \<subseteq> dom (map_of memo)"
  using assms unfolding ogood_def by (simp, simp, blast, simp, simp, blast, blast)

lemma ogoodI:
  assumes "length h0 \<le> length h" and "take (length h0) h = h0"
    and "\<And>a b y. map_of memo a = Some y \<Longrightarrow> map_of memo b = Some y \<Longrightarrow> a = b"
    and "dom (map_of memo) \<subseteq> {..< length h0}"
    and "ran (map_of memo) = {length h0 ..< length h}"
    and "\<And>a y. map_of memo a = Some y \<Longrightarrow> a \<notin> P \<Longrightarrow> h ! y = rn_obj (map_of memo) (h0 ! a)"
    and "\<And>a y. map_of memo a = Some y \<Longrightarrow> a \<notin> P \<Longrightarrow> obj_addrs (h0 ! a) \<subseteq> dom (map_of memo)"
  shows "ogood h0 P (memo, h)"
  unfolding ogood_def using assms by auto

lemma ocopiesD:
  assumes "ocopies h0 recurse" and "ogood h0 P (memo, h)"
    and "ref_addrs r \<subseteq> {..< length h0}"
    and "recurse r (memo, h) = Inr (r', memo', h')"
  shows "ogood h0 P (memo', h')" and "map_of memo \<subseteq>\<^sub>m map_of memo'"
    and "take (length h) h' = h" and "r' = rn (map_of memo') r"
    and "ref_addrs r \<subseteq> dom (map_of memo')"
  using assms unfolding ocopies_def by fastforce+

lemma take_prefix_length: "take n xs = ys \<Longrightarrow> length ys = n \<Longrightarrow> n \<le> length xs"
  using length_take [of n xs] by auto

lemma take_prefix_nth: "take n xs = ys \<Longrightarrow> i < n \<Longrightarrow> xs ! i = ys ! i"
  by (metis nth_take)

lemma ocopy_entry_step:
  assumes rec: "ocopies h0 recurse"
    and good: "ogood h0 (insert a P) (memoc, hc)"
    and fa: "map_of memoc a = Some y"
    and cell: "hc ! y = (tag, rn_entries (map_of memoc) d1)"
    and d1: "entries_addrs d1 \<subseteq> dom (map_of memoc)"
    and kv: "ref_addrs k \<union> ref_addrs v \<subseteq> {..< length h0}"
    and knew: "k \<notin> fst ` set d1"
    and run: "ocopy_entry recurse y (k, v) (memoc, hc) = Inr (memo2, h2')"
  shows "ogood h0 (insert a P) (memo2, h2')
       \<and> map_of memoc \<subseteq>\<^sub>m map_of memo2
       \<and> length hc \<le> length h2'
       \<and> (\<forall>i < length hc. i \<noteq> y \<longrightarrow> h2' ! i = hc ! i)
       \<and> h2' ! y = (tag, rn_entries (map_of memo2) (d1 @ [(k, v)]))
       \<and> entries_addrs (d1 @ [(k, v)]) \<subseteq> dom (map_of memo2)"
proof -
  from run obtain v' memo1 h1 k' h2 where
    r1: "recurse v (memoc, hc) = Inr (v', memo1, h1)"
    and r2: "recurse k (memo1, h1) = Inr (k', memo2, h2)"
    and res: "h2' = h2[y := (fst (oderef h2 y), AList.update k' v' (snd (oderef h2 y)))]"
    by (auto simp: ocopy_entry_def split: sum.splits prod.splits)
  have vold: "ref_addrs v \<subseteq> {..< length h0}" and kold: "ref_addrs k \<subseteq> {..< length h0}"
    using kv by auto
  note s1 = ocopiesD [OF rec good vold r1]
  note s2 = ocopiesD [OF rec s1(1) kold r2]
  note gc = ogoodD [OF good]
  note g2 = ogoodD [OF s2(1)]
  have le: "map_of memoc \<subseteq>\<^sub>m map_of memo2"
    using s1(2) s2(2) by (rule map_le_trans)
  have "y \<in> ran (map_of memoc)"
    using fa by (auto simp: ran_def)
  then have y: "length h0 \<le> y" "y < length hc"
    using gc(5) by auto
  have len1: "length hc \<le> length h1"
    using s1(3) by (rule take_prefix_length) simp
  have len2: "length h1 \<le> length h2"
    using s2(3) by (rule take_prefix_length) simp
  have keep: "h2 ! i = hc ! i" if "i < length hc" for i
  proof -
    have "h2 ! i = h1 ! i"
      using take_prefix_nth [OF s2(3), of i] that len1 by simp
    also have "\<dots> = hc ! i"
      using take_prefix_nth [OF s1(3), of i] that by simp
    finally show ?thesis .
  qed
  have d1': "entries_addrs d1 \<subseteq> dom (map_of memo2)"
    using d1 map_le_implies_dom_le [OF le] by blast
  have "oderef h2 y = (tag, rn_entries (map_of memoc) d1)"
    using keep [OF y(2)] cell y len1 len2 by (simp add: oderef_def)
  also have "rn_entries (map_of memoc) d1 = rn_entries (map_of memo2) d1"
    using le d1 by (rule rn_entries_stable [symmetric])
  finally have old: "oderef h2 y = (tag, rn_entries (map_of memo2) d1)" .
  have v': "v' = rn (map_of memo2) v"
    using s1(4) rn_stable [OF s2(2) s1(5)] by simp
  have vdom: "ref_addrs v \<subseteq> dom (map_of memo2)"
    using s1(5) map_le_implies_dom_le [OF s2(2)] by blast
  have inj: "\<forall>a b z. map_of memo2 a = Some z \<and> map_of memo2 b = Some z \<longrightarrow> a = b"
    using g2(3) by blast
  have "rn (map_of memo2) k \<notin> fst ` set (rn_entries (map_of memo2) d1)"
    using inj d1' s2(5) knew by (rule rn_keys_fresh)
  then have "AList.update k' v' (rn_entries (map_of memo2) d1)
               = rn_entries (map_of memo2) d1 @ [(k', v')]"
    using s2(4) by (intro update_absent_appends) simp
  then have filled: "h2' ! y = (tag, rn_entries (map_of memo2) (d1 @ [(k, v)]))"
    using res old y len1 len2 s2(4) v' by (simp add: rn_entries_def)
  have other: "h2' ! i = h2 ! i" if "i \<noteq> y" for i
    using res that by simp
  have fa2: "map_of memo2 a = Some y"
    using fa le by (auto simp: map_le_def dom_def)
  have "ogood h0 (insert a P) (memo2, h2')"
  proof (rule ogoodI)
    show "length h0 \<le> length h2'"
      using g2(1) res by simp
    show "take (length h0) h2' = h0"
      using g2(2) res y by (simp add: take_update_cancel)
    show "b = c" if "map_of memo2 b = Some z" "map_of memo2 c = Some z" for b c z
      using g2(3) that by blast
    show "dom (map_of memo2) \<subseteq> {..< length h0}"
      by (rule g2(4))
    show "ran (map_of memo2) = {length h0 ..< length h2'}"
      using g2(5) res by simp
    show "h2' ! z = rn_obj (map_of memo2) (h0 ! b)"
      if "map_of memo2 b = Some z" "b \<notin> insert a P" for b z
    proof -
      have "z \<noteq> y"
        using g2(3) [of b z a] that fa2 by auto
      then show ?thesis
        using other g2(6) [OF that] by simp
    qed
    show "obj_addrs (h0 ! b) \<subseteq> dom (map_of memo2)"
      if "map_of memo2 b = Some z" "b \<notin> insert a P" for b z
      using g2(7) [OF that] .
  qed
  moreover have "length hc \<le> length h2'"
    using len1 len2 res by simp
  moreover have "\<forall>i < length hc. i \<noteq> y \<longrightarrow> h2' ! i = hc ! i"
    using other keep by simp
  moreover have "entries_addrs (d1 @ [(k, v)]) \<subseteq> dom (map_of memo2)"
    using d1' vdom s2(5) by (simp add: entries_addrs_append entries_addrs_Cons entries_addrs_Nil)
  ultimately show ?thesis
    using le filled by simp
qed


lemma ocopy_loop:
  assumes rec: "ocopies h0 recurse"
  shows "ogood h0 (insert a P) (memoc, hc) \<Longrightarrow> map_of memoc a = Some y
     \<Longrightarrow> hc ! y = (tag, rn_entries (map_of memoc) d1)
     \<Longrightarrow> entries_addrs d1 \<subseteq> dom (map_of memoc)
     \<Longrightarrow> entries_addrs d2 \<subseteq> {..< length h0}
     \<Longrightarrow> distinct (map fst (d1 @ d2))
     \<Longrightarrow> for_each (ocopy_entry recurse y) d2 (memoc, hc) = Inr (memo', h')
     \<Longrightarrow> ogood h0 (insert a P) (memo', h')
       \<and> map_of memoc \<subseteq>\<^sub>m map_of memo'
       \<and> length hc \<le> length h'
       \<and> (\<forall>i < length hc. i \<noteq> y \<longrightarrow> h' ! i = hc ! i)
       \<and> h' ! y = (tag, rn_entries (map_of memo') (d1 @ d2))
       \<and> entries_addrs (d1 @ d2) \<subseteq> dom (map_of memo')"
proof (induction d2 arbitrary: d1 memoc hc)
  case Nil
  then show ?case by simp
next
  case (Cons e d2)
  obtain k v where e: "e = (k, v)" by (cases e)
  from Cons.prems(7) e obtain memo2 h2 where
    one: "ocopy_entry recurse y (k, v) (memoc, hc) = Inr (memo2, h2)"
    and rest: "for_each (ocopy_entry recurse y) d2 (memo2, h2) = Inr (memo', h')"
    by (auto split: sum.splits)
  have kv: "ref_addrs k \<union> ref_addrs v \<subseteq> {..< length h0}"
    using Cons.prems(5) e by (simp add: entries_addrs_Cons)
  have knew: "k \<notin> fst ` set d1"
    using Cons.prems(6) e by auto
  from ocopy_entry_step [OF rec Cons.prems(1,2,3,4) kv knew one]
  have g2: "ogood h0 (insert a P) (memo2, h2)"
    and le2: "map_of memoc \<subseteq>\<^sub>m map_of memo2"
    and len2: "length hc \<le> length h2"
    and keep2: "\<forall>i < length hc. i \<noteq> y \<longrightarrow> h2 ! i = hc ! i"
    and cell2: "h2 ! y = (tag, rn_entries (map_of memo2) (d1 @ [(k, v)]))"
    and dom2: "entries_addrs (d1 @ [(k, v)]) \<subseteq> dom (map_of memo2)"
    by simp_all
  have fa2: "map_of memo2 a = Some y"
    using Cons.prems(2) le2 by (auto simp: map_le_def dom_def)
  have old: "entries_addrs d2 \<subseteq> {..< length h0}"
    using Cons.prems(5) e by (simp add: entries_addrs_Cons)
  have dist: "distinct (map fst ((d1 @ [(k, v)]) @ d2))"
    using Cons.prems(6) e by simp
  from Cons.IH [OF g2 fa2 cell2 dom2 old dist rest]
  have g': "ogood h0 (insert a P) (memo', h')"
    and le': "map_of memo2 \<subseteq>\<^sub>m map_of memo'"
    and len': "length h2 \<le> length h'"
    and keep': "\<forall>i < length h2. i \<noteq> y \<longrightarrow> h' ! i = h2 ! i"
    and cell': "h' ! y = (tag, rn_entries (map_of memo') ((d1 @ [(k, v)]) @ d2))"
    and dom': "entries_addrs ((d1 @ [(k, v)]) @ d2) \<subseteq> dom (map_of memo')"
    by simp_all
  have "map_of memoc \<subseteq>\<^sub>m map_of memo'"
    using le2 le' by (rule map_le_trans)
  moreover have "length hc \<le> length h'"
    using len2 len' by simp
  moreover have "\<forall>i < length hc. i \<noteq> y \<longrightarrow> h' ! i = hc ! i"
    using keep2 keep' len2 by auto
  ultimately show ?case
    using g' cell' dom' e by simp
qed

lemma ocopy_object_spec:
  assumes wf: "owf h0" and rec: "ocopies h0 recurse"
    and good: "ogood h0 P (memo, h)" and a: "a < length h0"
    and run: "ocopy_object recurse a (memo, h) = Inr (y, memo', h')"
  shows "ogood h0 P (memo', h') \<and> map_of memo \<subseteq>\<^sub>m map_of memo'
       \<and> take (length h) h' = h \<and> map_of memo' a = Some y"
proof (cases "map_of memo a")
  case (Some z)
  then have "y = z" "memo' = memo" "h' = h"
    using run by (simp_all add: ocopy_object_def)
  then show ?thesis
    using good Some by simp
next
  case None
  note g = ogoodD [OF good]
  obtain tag d where cell: "h0 ! a = (tag, d)" by (cases "h0 ! a")
  have "h ! a = h0 ! a"
    using take_prefix_nth [OF g(2) a] .
  then have src: "oderef h a = (tag, d)"
    using cell a g(1) by (simp add: oderef_def)
  let ?y = "length h"
  let ?memo1 = "AList.update a ?y memo"
  let ?h1 = "h @ [(tag, [])]"
  from run None src have loop: "for_each (ocopy_entry recurse ?y) d (?memo1, ?h1) = Inr (memo', h')"
    and y: "y = ?y"
    by (auto simp: ocopy_object_def split: sum.splits prod.splits)
  have f1: "map_of ?memo1 = (map_of memo)(a \<mapsto> ?y)"
    by (rule update_conv')
  have le1: "map_of memo \<subseteq>\<^sub>m map_of ?memo1"
    using None by (simp add: f1 map_le_def dom_def)
  have ynew: "?y \<notin> ran (map_of memo)"
    using g(5) by simp
  have good1: "ogood h0 (insert a P) (?memo1, ?h1)"
  proof (rule ogoodI)
    show "length h0 \<le> length ?h1"
      using g(1) by simp
    show "take (length h0) ?h1 = h0"
      using g(1,2) by simp
    show "b = c" if "map_of ?memo1 b = Some z" "map_of ?memo1 c = Some z" for b c z
      using that ynew g(3) [of b z c]
      by (auto simp: f1 ran_def split: if_splits)
    show "dom (map_of ?memo1) \<subseteq> {..< length h0}"
      using g(4) a by (simp add: f1)
    show "ran (map_of ?memo1) = {length h0 ..< length ?h1}"
    proof -
      have "ran (map_of ?memo1) = insert ?y (ran (map_of memo))"
        using None by (simp add: f1)
      then show ?thesis
        using g(1,5) by auto
    qed
    show "?h1 ! z = rn_obj (map_of ?memo1) (h0 ! b)"
      if "map_of ?memo1 b = Some z" "b \<notin> insert a P" for b z
    proof -
      have fb: "map_of memo b = Some z" and "b \<notin> P"
        using that by (auto simp: f1 split: if_splits)
      then have "z \<in> ran (map_of memo)"
        by (auto simp: ran_def)
      then have "z < length h"
        using g(5) by simp
      then have "?h1 ! z = h ! z"
        by (simp add: nth_append)
      also have "\<dots> = rn_obj (map_of memo) (h0 ! b)"
        using g(6) [OF fb \<open>b \<notin> P\<close>] .
      also have "\<dots> = rn_obj (map_of ?memo1) (h0 ! b)"
        using rn_obj_stable [OF le1 g(7) [OF fb \<open>b \<notin> P\<close>]] by simp
      finally show ?thesis .
    qed
    show "obj_addrs (h0 ! b) \<subseteq> dom (map_of ?memo1)"
      if "map_of ?memo1 b = Some z" "b \<notin> insert a P" for b z
    proof -
      have fb: "map_of memo b = Some z" and "b \<notin> P"
        using that by (auto simp: f1 split: if_splits)
      then show ?thesis
        using g(7) [OF fb \<open>b \<notin> P\<close>] by (auto simp: f1)
    qed
  qed
  have fa1: "map_of ?memo1 a = Some ?y"
    by (simp add: f1)
  have cell1: "?h1 ! ?y = (tag, rn_entries (map_of ?memo1) [])"
    by (simp add: rn_entries_def)
  have dom1: "entries_addrs [] \<subseteq> dom (map_of ?memo1)"
    by (simp add: entries_addrs_Nil)
  have "obj_addrs (h0 ! a) \<subseteq> {..< length h0} \<and> distinct (map fst (snd (h0 ! a)))"
    using wf a unfolding owf_def by blast
  then have old: "entries_addrs d \<subseteq> {..< length h0}" and dist: "distinct (map fst ([] @ d))"
    using cell by (simp_all add: obj_addrs_def)
  from ocopy_loop [OF rec good1 fa1 cell1 dom1 old dist loop]
  have g': "ogood h0 (insert a P) (memo', h')"
    and le': "map_of ?memo1 \<subseteq>\<^sub>m map_of memo'"
    and len': "length ?h1 \<le> length h'"
    and keep': "\<forall>i < length ?h1. i \<noteq> ?y \<longrightarrow> h' ! i = ?h1 ! i"
    and cell': "h' ! ?y = (tag, rn_entries (map_of memo') d)"
    and dom': "entries_addrs d \<subseteq> dom (map_of memo')"
    by simp_all
  note gg = ogoodD [OF g']
  have fa': "map_of memo' a = Some ?y"
    using fa1 le' by (auto simp: map_le_def dom_def)
  have "ogood h0 P (memo', h')"
  proof (rule ogoodI)
    show "length h0 \<le> length h'" by (rule gg(1))
    show "take (length h0) h' = h0" by (rule gg(2))
    show "b = c" if "map_of memo' b = Some z" "map_of memo' c = Some z" for b c z
      using gg(3) that by blast
    show "dom (map_of memo') \<subseteq> {..< length h0}" by (rule gg(4))
    show "ran (map_of memo') = {length h0 ..< length h'}" by (rule gg(5))
    show "h' ! z = rn_obj (map_of memo') (h0 ! b)"
      if "map_of memo' b = Some z" "b \<notin> P" for b z
    proof (cases "b = a")
      case True
      then have "z = ?y"
        using that(1) fa' by simp
      then show ?thesis
        using True cell' cell by (simp add: rn_obj_def)
    next
      case False
      then show ?thesis
        using gg(6) [OF that(1)] that(2) by simp
    qed
    show "obj_addrs (h0 ! b) \<subseteq> dom (map_of memo')"
      if "map_of memo' b = Some z" "b \<notin> P" for b z
    proof (cases "b = a")
      case True
      then show ?thesis
        using dom' cell by (simp add: obj_addrs_def)
    next
      case False
      then show ?thesis
        using gg(7) [OF that(1)] that(2) by simp
    qed
  qed
  moreover have "map_of memo \<subseteq>\<^sub>m map_of memo'"
    using le1 le' by (rule map_le_trans)
  moreover have "take (length h) h' = h"
  proof (rule nth_equalityI)
    show "length (take (length h) h') = length h"
      using len' by simp
    show "take (length h) h' ! i = h ! i" if "i < length (take (length h) h')" for i
    proof -
      have i: "i < length h"
        using that by simp
      then have "h' ! i = ?h1 ! i"
        using keep' by simp
      then show ?thesis
        using i by (simp add: nth_append)
    qed
  qed
  ultimately show ?thesis
    using fa' y by simp
qed

lemma odeepcopy_copies:
  assumes wf: "owf h0"
  shows "ocopies h0 (odeepcopy depth)"
proof (induction depth)
  case 0
  show ?case
    unfolding ocopies_def
  proof (intro allI impI)
    fix P r s r' s'
    assume good: "ogood h0 P s" and run: "odeepcopy 0 r s = Inr (r', s')"
    show "ogood h0 P s' \<and> map_of (fst s) \<subseteq>\<^sub>m map_of (fst s')
            \<and> take (length (snd s)) (snd s') = snd s
            \<and> r' = rn (map_of (fst s')) r \<and> ref_addrs r \<subseteq> dom (map_of (fst s'))"
      using good run by (cases r) auto
  qed
next
  case (Suc depth)
  show ?case
    unfolding ocopies_def
  proof (intro allI impI)
    fix P r s r' s'
    assume good: "ogood h0 P s" and old: "ref_addrs r \<subseteq> {..< length h0}"
      and run: "odeepcopy (Suc depth) r s = Inr (r', s')"
    show "ogood h0 P s' \<and> map_of (fst s) \<subseteq>\<^sub>m map_of (fst s')
            \<and> take (length (snd s)) (snd s') = snd s
            \<and> r' = rn (map_of (fst s')) r \<and> ref_addrs r \<subseteq> dom (map_of (fst s'))"
    proof (cases r)
      case (OStr x)
      then show ?thesis using good run by auto
    next
      case ONone
      then show ?thesis using good run by auto
    next
      case (ORef a)
      obtain memo h where s: "s = (memo, h)" by (cases s)
      obtain memo' h' where s': "s' = (memo', h')" by (cases s')
      from run ORef s s' obtain y where
        obj: "ocopy_object (odeepcopy depth) a (memo, h) = Inr (y, memo', h')" and r': "r' = ORef y"
        by (auto split: sum.splits prod.splits)
      have a: "a < length h0"
        using old ORef by simp
      from ocopy_object_spec [OF wf Suc.IH good [unfolded s] a obj]
      show ?thesis
        using s s' r' ORef by (auto simp: dom_def)
    qed
  qed
qed


lemma ogood_start: "ogood h {} ([], h)"
  by (rule ogoodI) simp_all

lemma odeepcopy_request_spec:
  assumes wf: "owf h" and roots: "request_roots self \<subseteq> {..< length h}"
    and run: "odeepcopy_request depth self h = Inr (t0, memo, h1)"
  shows "ogood h {} (memo, h1)"
    and "obj_url t0 = rn (map_of memo) (obj_url self)"
    and "request_roots self \<subseteq> dom (map_of memo)"
    and "map_of memo (obj_headers self) = Some (obj_headers t0)"
    and "map_of memo (obj_cookies self) = Some (obj_cookies t0)"
    and "map_of memo (obj_data self) = Some (obj_data t0)"
    and "obj_method t0 = obj_method self"
proof -
  from run obtain u m1 g1 hd' m2 g2 ck' m3 g3 dt' where
    c1: "odeepcopy (Suc depth) (obj_url self) ([], h) = Inr (u, m1, g1)"
    and c2: "ocopy_object (odeepcopy depth) (obj_headers self) (m1, g1) = Inr (hd', m2, g2)"
    and c3: "ocopy_object (odeepcopy depth) (obj_cookies self) (m2, g2) = Inr (ck', m3, g3)"
    and c4: "ocopy_object (odeepcopy depth) (obj_data self) (m3, g3) = Inr (dt', memo, h1)"
    and t0: "t0 = self\<lparr>obj_url := u, obj_headers := hd', obj_cookies := ck', obj_data := dt'\<rparr>"
    by (auto simp: odeepcopy_request_def split: sum.splits prod.splits)
  have old: "ref_addrs (obj_url self) \<subseteq> {..< length h}" "obj_headers self < length h"
    "obj_cookies self < length h" "obj_data self < length h"
    using roots by (auto simp: request_roots_def)
  note rec = odeepcopy_copies [OF wf]
  note s1 = ocopiesD [OF rec ogood_start old(1) c1]
  from ocopy_object_spec [OF wf rec s1(1) old(2) c2]
  have s2: "ogood h {} (m2, g2)" "map_of m1 \<subseteq>\<^sub>m map_of m2" "map_of m2 (obj_headers self) = Some hd'"
    by simp_all
  from ocopy_object_spec [OF wf rec s2(1) old(3) c3]
  have s3: "ogood h {} (m3, g3)" "map_of m2 \<subseteq>\<^sub>m map_of m3" "map_of m3 (obj_cookies self) = Some ck'"
    by simp_all
  from ocopy_object_spec [OF wf rec s3(1) old(4) c4]
  have s4: "ogood h {} (memo, h1)" "map_of m3 \<subseteq>\<^sub>m map_of memo" "map_of memo (obj_data self) = Some dt'"
    by simp_all
  have le1: "map_of m1 \<subseteq>\<^sub>m map_of memo"
    using s2(2) s3(2) s4(2) by (blast intro: map_le_trans)
  have le2: "map_of m2 \<subseteq>\<^sub>m map_of memo"
    using s3(2) s4(2) by (blast intro: map_le_trans)
  show "ogood h {} (memo, h1)" by (rule s4(1))
  show url: "obj_url t0 = rn (map_of memo) (obj_url self)"
    using t0 s1(4) rn_stable [OF le1 s1(5)] by simp
  show hd: "map_of memo (obj_headers self) = Some (obj_headers t0)"
    using t0 s2(3) le2 by (auto simp: map_le_def dom_def)
  show ck: "map_of memo (obj_cookies self) = Some (obj_cookies t0)"
    using t0 s3(3) s4(2) by (auto simp: map_le_def dom_def)
  show dt: "map_of memo (obj_data self) = Some (obj_data t0)"
    using t0 s4(3) by simp
  show "request_roots self \<subseteq> dom (map_of memo)"
    using s1(5) map_le_implies_dom_le [OF le1] hd ck dt
    by (auto simp: request_roots_def)
  show "obj_method t0 = obj_method self"
    using t0 by simp
qed

lemma oreach_closed:
  assumes "roots \<subseteq> R" and "\<And>a. a \<in> R \<Longrightarrow> obj_addrs (oderef hh a) \<subseteq> R"
  shows "oreach hh roots \<subseteq> R"
proof
  fix a assume "a \<in> oreach hh roots"
  then show "a \<in> R"
    using assms by (induction rule: oreach.induct) auto
qed

lemma oreach_copied:
  assumes good: "ogood h {} (memo, h1)" and roots: "roots \<subseteq> dom (map_of memo)"
  shows "oreach h roots \<subseteq> dom (map_of memo)"
proof (rule oreach_closed [OF roots])
  fix a assume "a \<in> dom (map_of memo)"
  then obtain y where fa: "map_of memo a = Some y" by auto
  have "a < length h"
    using ogoodD(4) [OF good] fa by auto
  then show "obj_addrs (oderef h a) \<subseteq> dom (map_of memo)"
    using ogoodD(7) [OF good fa] by (simp add: oderef_def)
qed

lemma dict_update_Nil: "dict_update d [] = d"
  by (simp add: dict_update_def)

lemma entries_addrs_update:
  "entries_addrs (AList.update k v d) \<subseteq> entries_addrs d \<union> ref_addrs k \<union> ref_addrs v"
  by (induction d) (auto simp: entries_addrs_Cons entries_addrs_Nil)

lemma entries_addrs_dict_update:
  "entries_addrs (dict_update d other) \<subseteq> entries_addrs d \<union> entries_addrs other"
proof -
  have "entries_addrs (fold (\<lambda>(k, v). AList.update k v) other d)
          \<subseteq> entries_addrs d \<union> entries_addrs other" for d
  proof (induction other arbitrary: d)
    case Nil
    then show ?case by (simp add: entries_addrs_Nil)
  next
    case (Cons e other)
    obtain k v where e: "e = (k, v)" by (cases e)
    show ?case
      using Cons [of "AList.update k v d"] entries_addrs_update [of k v d] e
      by (auto simp: entries_addrs_Cons)
  qed
  then show ?thesis
    by (simp add: dict_update_def)
qed

lemma ostore_entries_addrs:
  "ostore_entries h cs = Inr entries \<Longrightarrow> entries_addrs entries \<subseteq> set cs"
proof (induction cs arbitrary: entries)
  case Nil
  then show ?case by (simp add: entries_addrs_Nil)
next
  case (Cons c cs)
  then show ?case
    by (auto simp: entries_addrs_Cons split: otag.splits sum.splits)
qed

lemma ostore_entries_same:
  "\<forall>c \<in> set cs. oderef h1 c = oderef h c \<Longrightarrow> ostore_entries h1 cs = ostore_entries h cs"
  by (induction cs) (auto split: otag.splits)

lemma oupdate_object_nth:
  "y < length h \<Longrightarrow> oupdate_object a other h ! y
     = (if y = a then (fst (h ! a), dict_update (snd (h ! a)) other) else h ! y)"
  by (simp add: oupdate_object_def oderef_def)

lemma length_oupdate_object: "length (oupdate_object a other h) = length h"
  by (simp add: oupdate_object_def)

lemma omerge_override_eq:
  assumes "omerge_override a override h = Inr h2" and "a < length h"
  shows "h2 = oupdate_object a (store_override h override) h"
proof -
  have same: "oupdate_object a [] h = h"
    using assms(2) by (simp add: oupdate_object_def oderef_def dict_update_Nil)
  show ?thesis
    using assms(1) same
    by (auto simp: omerge_override_def store_override_def split: option.splits if_splits sum.splits)
qed


lemma store_override_same:
  "\<forall>c < n. oderef h1 c = oderef h c \<Longrightarrow> (case ov of None \<Rightarrow> {} | Some l \<Rightarrow> set l) \<subseteq> {..< n}
     \<Longrightarrow> store_override h1 ov = store_override h ov"
proof (cases ov)
  case None
  then show ?thesis by (simp add: store_override_def)
next
  case (Some cs)
  assume "\<forall>c < n. oderef h1 c = oderef h c"
    and "(case ov of None \<Rightarrow> {} | Some l \<Rightarrow> set l) \<subseteq> {..< n}"
  then have "\<forall>c \<in> set cs. oderef h1 c = oderef h c"
    using Some by auto
  then have "ostore_entries h1 cs = ostore_entries h cs"
    by (rule ostore_entries_same)
  then show ?thesis
    using Some by (simp add: store_override_def)
qed

lemma store_override_addrs:
  "entries_addrs (store_override h ov) \<subseteq> (case ov of None \<Rightarrow> {} | Some l \<Rightarrow> set l)"
  using ostore_entries_addrs
  by (auto simp: store_override_def entries_addrs_Nil split: option.splits sum.splits)

lemma template_object_call_unfold:
  assumes "template_object_call depth self m u cs hs d h = Inr (t, h')"
  obtains t0 memo h1 h2 h3 where
    "odeepcopy_request depth self h = Inr (t0, memo, h1)"
    and "omerge_override (obj_cookies t0) cs h1 = Inr h2"
    and "omerge_override (obj_headers t0) hs h2 = Inr h3"
    and "h' = (case d of None \<Rightarrow> h3
               | Some e \<Rightarrow> if e \<noteq> [] then oupdate_object (obj_data t0) e h3 else h3)"
    and "obj_headers t = obj_headers t0" and "obj_cookies t = obj_cookies t0"
    and "obj_data t = obj_data t0"
    and "obj_url t = (if truthy_ref u then u else obj_url t0)"
    and "obj_method t = (case m of None \<Rightarrow> obj_method t0
                         | Some x \<Rightarrow> if x \<noteq> [] then x else obj_method t0)"
proof -
  obtain t0 memo h1 where copy: "odeepcopy_request depth self h = Inr (t0, memo, h1)"
    using assms
    by (cases "odeepcopy_request depth self h") (auto simp: template_object_call_def)
  define t1 where "t1 = (case m of
                       None \<Rightarrow> t0
                     | Some x \<Rightarrow> if x \<noteq> [] then t0\<lparr>obj_method := x\<rparr> else t0)"
  define t2 where "t2 = (if truthy_ref u then t1\<lparr>obj_url := u\<rparr> else t1)"
  have fields: "obj_cookies t2 = obj_cookies t0" "obj_headers t2 = obj_headers t0"
    "obj_data t2 = obj_data t0" "obj_url t2 = (if truthy_ref u then u else obj_url t0)"
    "obj_method t2 = (case m of None \<Rightarrow> obj_method t0
                      | Some x \<Rightarrow> if x \<noteq> [] then x else obj_method t0)"
    by (simp_all add: t2_def t1_def split: option.splits)
  have run: "(case omerge_override (obj_cookies t2) cs h1 of
                 Inl e \<Rightarrow> Inl e
               | Inr h2 \<Rightarrow>
              (case omerge_override (obj_headers t2) hs h2 of
                 Inl e \<Rightarrow> Inl e
               | Inr h3 \<Rightarrow>
                   Inr (t2, (case d of
                               None \<Rightarrow> h3
                             | Some e \<Rightarrow>
                                 if e \<noteq> [] then oupdate_object (obj_data t2) e h3
                                 else h3)))) = Inr (t, h')"
    using assms unfolding template_object_call_def copy t2_def t1_def Let_def by simp
  obtain h2 where m1: "omerge_override (obj_cookies t2) cs h1 = Inr h2"
    using run by (cases "omerge_override (obj_cookies t2) cs h1") simp_all
  obtain h3 where m2: "omerge_override (obj_headers t2) hs h2 = Inr h3"
    using run m1 by (cases "omerge_override (obj_headers t2) hs h2") simp_all
  have res: "t = t2"
    "h' = (case d of None \<Rightarrow> h3
           | Some e \<Rightarrow> if e \<noteq> [] then oupdate_object (obj_data t2) e h3 else h3)"
    using run m1 m2 by simp_all
  show ?thesis
  proof (rule that [OF copy, of h2 h3])
    show "omerge_override (obj_cookies t0) cs h1 = Inr h2"
      using m1 fields(1) by simp
    show "omerge_override (obj_headers t0) hs h2 = Inr h3"
      using m2 fields(2) by simp
    show "h' = (case d of None \<Rightarrow> h3
               | Some e \<Rightarrow> if e \<noteq> [] then oupdate_object (obj_data t0) e h3 else h3)"
      unfolding res(2) fields(3) ..
    show "obj_headers t = obj_headers t0" "obj_cookies t = obj_cookies t0"
      "obj_data t = obj_data t0"
      using res(1) fields by simp_all
    show "obj_url t = (if truthy_ref u then u else obj_url t0)"
      using res(1) fields(4) by simp
    show "obj_method t = (case m of None \<Rightarrow> obj_method t0
                         | Some x \<Rightarrow> if x \<noteq> [] then x else obj_method t0)"
      using res(1) fields(5) by simp
  qed
qed


lemma overlay_addrs:
  "entries_addrs (overlay here other entries) \<subseteq> entries_addrs entries \<union> entries_addrs other"
  using entries_addrs_dict_update [of entries other] by (auto simp: overlay_def)

lemma oupdate_object_overlay:
  "i < length g \<Longrightarrow> oupdate_object a other g ! i
     = (fst (g ! i), overlay (i = a) other (snd (g ! i)))"
  by (simp add: oupdate_object_nth overlay_def)

lemma template_object_call_heap:
  assumes wf: "owf h"
    and roots: "request_roots self \<subseteq> {..< length h}"
    and over: "override_addrs u cs hs d \<subseteq> {..< length h}"
    and call: "template_object_call depth self m u cs hs d h = Inr (t, h')"
  obtains memo h1 where
    "ogood h {} (memo, h1)" and "length h' = length h1"
    and "request_roots self \<subseteq> dom (map_of memo)"
    and "map_of memo (obj_headers self) = Some (obj_headers t)"
    and "map_of memo (obj_cookies self) = Some (obj_cookies t)"
    and "map_of memo (obj_data self) = Some (obj_data t)"
    and "obj_url t = (if truthy_ref u then u else rn (map_of memo) (obj_url self))"
    and "obj_method t = (case m of None \<Rightarrow> obj_method self
                         | Some x \<Rightarrow> if x \<noteq> [] then x else obj_method self)"
    and "\<And>i. i < length h1 \<Longrightarrow>
           h' ! i = (fst (h1 ! i),
                     overlay (i = obj_data t) (data_override d)
                       (overlay (i = obj_headers t) (store_override h hs)
                          (overlay (i = obj_cookies t) (store_override h cs) (snd (h1 ! i)))))"
proof -
  from call obtain t0 memo h1 h2 h3 where
    copy: "odeepcopy_request depth self h = Inr (t0, memo, h1)"
    and m1: "omerge_override (obj_cookies t0) cs h1 = Inr h2"
    and m2: "omerge_override (obj_headers t0) hs h2 = Inr h3"
    and fin: "h' = (case d of None \<Rightarrow> h3
               | Some e \<Rightarrow> if e \<noteq> [] then oupdate_object (obj_data t0) e h3 else h3)"
    and fields: "obj_headers t = obj_headers t0" "obj_cookies t = obj_cookies t0"
      "obj_data t = obj_data t0"
      "obj_url t = (if truthy_ref u then u else obj_url t0)"
      "obj_method t = (case m of None \<Rightarrow> obj_method t0
                         | Some x \<Rightarrow> if x \<noteq> [] then x else obj_method t0)"
    by (rule template_object_call_unfold)
  note sp = odeepcopy_request_spec [OF wf roots copy]
  note g = ogoodD [OF sp(1)]
  have new: "length h \<le> y \<and> y < length h1" if "map_of memo a = Some y" for a y
  proof -
    have "y \<in> ran (map_of memo)"
      using that by (auto simp: ran_def)
    then show ?thesis
      using g(5) by simp
  qed
  note hd = new [OF sp(4)] and ck = new [OF sp(5)] and dt = new [OF sp(6)]
  have old1: "\<forall>c < length h. oderef h1 c = oderef h c"
    using take_prefix_nth [OF g(2)] g(1) by (simp add: oderef_def)
  have cs_old: "(case cs of None \<Rightarrow> {} | Some l \<Rightarrow> set l) \<subseteq> {..< length h}"
    and hs_old: "(case hs of None \<Rightarrow> {} | Some l \<Rightarrow> set l) \<subseteq> {..< length h}"
    using over by (auto simp: override_addrs_def)
  have h2: "h2 = oupdate_object (obj_cookies t0) (store_override h cs) h1"
    using omerge_override_eq [OF m1] ck store_override_same [OF old1 cs_old] by simp
  have len2: "length h2 = length h1"
    using h2 by (simp add: length_oupdate_object)
  have old2: "\<forall>c < length h. oderef h2 c = oderef h c"
    using old1 ck h2 by (simp add: oderef_def oupdate_object_def)
  have h3: "h3 = oupdate_object (obj_headers t0) (store_override h hs) h2"
    using omerge_override_eq [OF m2] hd len2 store_override_same [OF old2 hs_old] by simp
  have len3: "length h3 = length h1"
    using h3 len2 by (simp add: length_oupdate_object)
  have same: "oupdate_object (obj_data t0) [] h3 = h3"
    using dt len3 by (simp add: oupdate_object_def oderef_def dict_update_Nil)
  have h': "h' = oupdate_object (obj_data t0) (data_override d) h3"
    using fin same by (auto simp: data_override_def split: option.splits)
  have len': "length h' = length h1"
    using h' len3 by (simp add: length_oupdate_object)
  have cells: "h' ! i = (fst (h1 ! i),
                     overlay (i = obj_data t) (data_override d)
                       (overlay (i = obj_headers t) (store_override h hs)
                          (overlay (i = obj_cookies t) (store_override h cs) (snd (h1 ! i)))))"
    if "i < length h1" for i
  proof -
    have a: "h2 ! i = (fst (h1 ! i), overlay (i = obj_cookies t0) (store_override h cs) (snd (h1 ! i)))"
      unfolding h2 using that by (rule oupdate_object_overlay)
    have b: "h3 ! i = (fst (h2 ! i), overlay (i = obj_headers t0) (store_override h hs) (snd (h2 ! i)))"
      unfolding h3 using that len2 by (intro oupdate_object_overlay) simp
    have c: "h' ! i = (fst (h3 ! i), overlay (i = obj_data t0) (data_override d) (snd (h3 ! i)))"
      unfolding h' using that len3 by (intro oupdate_object_overlay) simp
    show ?thesis
      unfolding c b a fields by simp
  qed
  show ?thesis
  proof (rule that [OF sp(1) len' sp(3)])
    show "map_of memo (obj_headers self) = Some (obj_headers t)"
      using sp(4) fields by simp
    show "map_of memo (obj_cookies self) = Some (obj_cookies t)"
      using sp(5) fields by simp
    show "map_of memo (obj_data self) = Some (obj_data t)"
      using sp(6) fields by simp
    show "obj_url t = (if truthy_ref u then u else rn (map_of memo) (obj_url self))"
      using sp(2) fields by simp
    show "obj_method t = (case m of None \<Rightarrow> obj_method self
                         | Some x \<Rightarrow> if x \<noteq> [] then x else obj_method self)"
      unfolding fields(5) sp(7) ..
    show "h' ! i = (fst (h1 ! i),
                     overlay (i = obj_data t) (data_override d)
                       (overlay (i = obj_headers t) (store_override h hs)
                          (overlay (i = obj_cookies t) (store_override h cs) (snd (h1 ! i)))))"
      if "i < length h1" for i
      using cells that .
  qed
qed


lemma oreach_old:
  assumes wf: "owf h" and old: "take (length h) h' = h" and roots: "ovs \<subseteq> {..< length h}"
  shows "oreach h' ovs \<subseteq> oreach h ovs \<inter> {..< length h}"
proof (rule oreach_closed)
  show "ovs \<subseteq> oreach h ovs \<inter> {..< length h}"
    using roots by (auto intro: oreach.root)
  fix a assume a: "a \<in> oreach h ovs \<inter> {..< length h}"
  then have lt: "a < length h" by simp
  have len: "length h \<le> length h'"
    using old by (rule take_prefix_length) simp
  have same: "oderef h' a = oderef h a"
    using take_prefix_nth [OF old lt] lt len by (simp add: oderef_def)
  have "obj_addrs (h ! a) \<subseteq> {..< length h}"
    using wf lt unfolding owf_def by blast
  then have "obj_addrs (oderef h a) \<subseteq> {..< length h}"
    using lt by (simp add: oderef_def)
  moreover have "obj_addrs (oderef h a) \<subseteq> oreach h ovs"
    using a by (auto intro: oreach.step)
  ultimately show "obj_addrs (oderef h' a) \<subseteq> oreach h ovs \<inter> {..< length h}"
    using same by auto
qed

text \<open>
  C6, as the code has it, on a well-formed heap that holds the template's objects and the
  override arguments. The call changes no object that existed before it. Every object
  that can be reached from the template has a copy in a newly allocated cell, one copy
  per object, with the same tag and with the entries of the original renamed to the
  copies; the entries of a cookies, headers or data override are written over the copy
  of the store or dictionary they are for, and the url and the method are the overrides
  when these are true in Python's sense. Whatever the instance can reach among the
  objects that existed before the call, the template's and those of earlier instances
  included, can be reached from an override argument; and overwriting any other object
  of the instance leaves every earlier object as it was.
\<close>

theorem template_instance_is_deep_copy:
  assumes wf: "owf h"
    and roots: "request_roots self \<subseteq> {..< length h}"
    and over: "override_addrs u cs hs d \<subseteq> {..< length h}"
    and call: "template_object_call depth self m u cs hs d h = Inr (t, h')"
  shows "take (length h) h' = h
       \<and> (\<exists>f. (\<forall>a b y. f a = Some y \<and> f b = Some y \<longrightarrow> a = b)
              \<and> oreach h (request_roots self) \<subseteq> dom f
              \<and> ran f \<subseteq> {length h ..< length h'}
              \<and> f (obj_headers self) = Some (obj_headers t)
              \<and> f (obj_cookies self) = Some (obj_cookies t)
              \<and> f (obj_data self) = Some (obj_data t)
              \<and> obj_url t = (if truthy_ref u then u else rn f (obj_url self))
              \<and> obj_method t = (case m of None \<Rightarrow> obj_method self
                                 | Some x \<Rightarrow> if x \<noteq> [] then x else obj_method self)
              \<and> (\<forall>a y. f a = Some y \<longrightarrow>
                    h' ! y = (fst (h ! a),
                              overlay (a = obj_data self) (data_override d)
                                (overlay (a = obj_headers self) (store_override h hs)
                                   (overlay (a = obj_cookies self) (store_override h cs)
                                      (rn_entries f (snd (h ! a))))))))
       \<and> oreach h' (request_roots t) \<inter> {..< length h} \<subseteq> oreach h (override_addrs u cs hs d)
       \<and> (\<forall>a c. a \<in> oreach h' (request_roots t) \<and> a \<notin> oreach h (override_addrs u cs hs d) \<longrightarrow>
              take (length h) (h'[a := c]) = h)"
proof -
  obtain memo h1 where
    good: "ogood h {} (memo, h1)" and len: "length h' = length h1"
    and rdom: "request_roots self \<subseteq> dom (map_of memo)"
    and fhd: "map_of memo (obj_headers self) = Some (obj_headers t)"
    and fck: "map_of memo (obj_cookies self) = Some (obj_cookies t)"
    and fdt: "map_of memo (obj_data self) = Some (obj_data t)"
    and url: "obj_url t = (if truthy_ref u then u else rn (map_of memo) (obj_url self))"
    and meth: "obj_method t = (case m of None \<Rightarrow> obj_method self
                         | Some x \<Rightarrow> if x \<noteq> [] then x else obj_method self)"
    and cells0: "\<forall>i < length h1.
           h' ! i = (fst (h1 ! i),
                     overlay (i = obj_data t) (data_override d)
                       (overlay (i = obj_headers t) (store_override h hs)
                          (overlay (i = obj_cookies t) (store_override h cs) (snd (h1 ! i)))))"
    by (rule template_object_call_heap [OF wf roots over call]) blast
  note cells = cells0 [rule_format]
  let ?f = "map_of memo"
  let ?O = "override_addrs u cs hs d"
  note g = ogoodD [OF good]
  have inj: "\<forall>a b y. ?f a = Some y \<and> ?f b = Some y \<longrightarrow> a = b"
    using g(3) by blast
  have new: "length h \<le> y \<and> y < length h1" if "?f a = Some y" for a y
  proof -
    have "y \<in> ran ?f"
      using that by (auto simp: ran_def)
    then show ?thesis
      using g(5) by simp
  qed
  have hd: "length h \<le> obj_headers t" and ck: "length h \<le> obj_cookies t"
    and dt: "length h \<le> obj_data t"
    using new [OF fhd] new [OF fck] new [OF fdt] by simp_all
  have old: "take (length h) h' = h"
  proof (rule nth_equalityI)
    show "length (take (length h) h') = length h"
      using g(1) len by simp
    show "take (length h) h' ! i = h ! i" if "i < length (take (length h) h')" for i
    proof -
      have i: "i < length h" using that by simp
      then have "i < length h1" using g(1) by simp
      then have "h' ! i = (fst (h1 ! i), snd (h1 ! i))"
        using cells [of i] i hd ck dt by (simp add: overlay_def)
      then have "h' ! i = h ! i"
        using take_prefix_nth [OF g(2) i] by simp
      then show ?thesis
        using i by simp
    qed
  qed
  have copied: "h' ! y = (fst (h ! a),
                  overlay (a = obj_data self) (data_override d)
                    (overlay (a = obj_headers self) (store_override h hs)
                       (overlay (a = obj_cookies self) (store_override h cs)
                          (rn_entries ?f (snd (h ! a))))))"
    if fa: "?f a = Some y" for a y
  proof -
    have y: "y < length h1"
      using new [OF fa] by simp
    have src: "h1 ! y = (fst (h ! a), rn_entries ?f (snd (h ! a)))"
      using g(6) [OF fa] by (simp add: rn_obj_def)
    have "(y = obj_data t) = (a = obj_data self)"
      "(y = obj_headers t) = (a = obj_headers self)"
      "(y = obj_cookies t) = (a = obj_cookies self)"
      using inj fa fdt fhd fck by auto
    then show ?thesis
      using cells [OF y] src by simp
  qed
  let ?N = "{length h ..< length h'}"
  have ran: "ran ?f = ?N"
    using g(5) len by simp
  have new_cell: "obj_addrs (h' ! y) \<subseteq> ?N \<union> ?O" if "y \<in> ?N" for y
  proof -
    have "y \<in> ran ?f"
      using that ran by simp
    then obtain a where fa: "?f a = Some y"
      unfolding ran_def by blast
    have "obj_addrs (h ! a) \<subseteq> dom ?f"
      using g(7) [OF fa] by simp
    then have base: "entries_addrs (rn_entries ?f (snd (h ! a))) \<subseteq> ?N"
      using rn_entries_addrs [of "snd (h ! a)" ?f] ran by (simp add: obj_addrs_def)
    have "entries_addrs (store_override h cs) \<subseteq> ?O"
      using store_override_addrs [of h cs] by (auto simp: override_addrs_def)
    have "entries_addrs (store_override h hs) \<subseteq> ?O"
      using store_override_addrs [of h hs] by (auto simp: override_addrs_def)
    have "entries_addrs (data_override d) \<subseteq> ?O"
      by (auto simp: override_addrs_def)
    have "entries_addrs (overlay (a = obj_data self) (data_override d)
                    (overlay (a = obj_headers self) (store_override h hs)
                       (overlay (a = obj_cookies self) (store_override h cs)
                          (rn_entries ?f (snd (h ! a)))))) \<subseteq> ?N \<union> ?O"
    proof -
      let ?e0 = "rn_entries ?f (snd (h ! a))"
      let ?e1 = "overlay (a = obj_cookies self) (store_override h cs) ?e0"
      let ?e2 = "overlay (a = obj_headers self) (store_override h hs) ?e1"
      have "entries_addrs ?e1 \<subseteq> ?N \<union> ?O"
        using overlay_addrs [of "a = obj_cookies self" "store_override h cs" ?e0] base
          \<open>entries_addrs (store_override h cs) \<subseteq> ?O\<close> by blast
      then have "entries_addrs ?e2 \<subseteq> ?N \<union> ?O"
        using overlay_addrs [of "a = obj_headers self" "store_override h hs" ?e1]
          \<open>entries_addrs (store_override h hs) \<subseteq> ?O\<close> by blast
      then show ?thesis
        using overlay_addrs [of "a = obj_data self" "data_override d" ?e2]
          \<open>entries_addrs (data_override d) \<subseteq> ?O\<close> by blast
    qed
    then show ?thesis
      using copied [OF fa] by (simp add: obj_addrs_def)
  qed
  have roots_t: "request_roots t \<subseteq> ?N \<union> oreach h' ?O"
  proof -
    have "ref_addrs (obj_url t) \<subseteq> ?N \<union> oreach h' ?O"
    proof (cases "truthy_ref u")
      case True
      then have "ref_addrs (obj_url t) \<subseteq> ?O"
        using url by (auto simp: override_addrs_def)
      then show ?thesis
        by (auto intro: oreach.root)
    next
      case False
      have "ref_addrs (obj_url self) \<subseteq> dom ?f"
        using rdom by (auto simp: request_roots_def)
      then have "ref_addrs (rn ?f (obj_url self)) \<subseteq> ran ?f"
        by (rule rn_addrs)
      then show ?thesis
        using False url ran by auto
    qed
    moreover have "obj_headers t \<in> ?N" "obj_cookies t \<in> ?N" "obj_data t \<in> ?N"
      using new [OF fhd] new [OF fck] new [OF fdt] len by simp_all
    ultimately show ?thesis
      by (auto simp: request_roots_def)
  qed
  have reach_t: "oreach h' (request_roots t) \<subseteq> ?N \<union> oreach h' ?O"
  proof (rule oreach_closed [OF roots_t])
    fix a assume "a \<in> ?N \<union> oreach h' ?O"
    then show "obj_addrs (oderef h' a) \<subseteq> ?N \<union> oreach h' ?O"
    proof
      assume a: "a \<in> ?N"
      then have "obj_addrs (oderef h' a) \<subseteq> ?N \<union> ?O"
        using new_cell [OF a] by (simp add: oderef_def)
      then show ?thesis
        by (auto intro: oreach.root)
    next
      assume "a \<in> oreach h' ?O"
      then show ?thesis
        by (auto intro: oreach.step)
    qed
  qed
  note reach_o = oreach_old [OF wf old over]
  have shared: "oreach h' (request_roots t) \<inter> {..< length h} \<subseteq> oreach h ?O"
    using reach_t reach_o by auto
  have mut: "take (length h) (h'[a := c]) = h"
    if "a \<in> oreach h' (request_roots t)" "a \<notin> oreach h ?O" for a c
  proof -
    have "a \<in> ?N"
      using that reach_t reach_o by auto
    then show ?thesis
      using old by (simp add: take_update_cancel)
  qed
  have dom: "oreach h (request_roots self) \<subseteq> dom ?f"
    using good rdom by (rule oreach_copied)
  have ransub: "ran ?f \<subseteq> {length h ..< length h'}"
    using ran by simp
  have last: "\<forall>a y. ?f a = Some y \<longrightarrow>
                    h' ! y = (fst (h ! a),
                              overlay (a = obj_data self) (data_override d)
                                (overlay (a = obj_headers self) (store_override h hs)
                                   (overlay (a = obj_cookies self) (store_override h cs)
                                      (rn_entries ?f (snd (h ! a))))))"
    using copied by blast
  have iso: "(\<forall>a b y. ?f a = Some y \<and> ?f b = Some y \<longrightarrow> a = b)
              \<and> oreach h (request_roots self) \<subseteq> dom ?f
              \<and> ran ?f \<subseteq> {length h ..< length h'}
              \<and> ?f (obj_headers self) = Some (obj_headers t)
              \<and> ?f (obj_cookies self) = Some (obj_cookies t)
              \<and> ?f (obj_data self) = Some (obj_data t)
              \<and> obj_url t = (if truthy_ref u then u else rn ?f (obj_url self))
              \<and> obj_method t = (case m of None \<Rightarrow> obj_method self
                                 | Some x \<Rightarrow> if x \<noteq> [] then x else obj_method self)
              \<and> (\<forall>a y. ?f a = Some y \<longrightarrow>
                    h' ! y = (fst (h ! a),
                              overlay (a = obj_data self) (data_override d)
                                (overlay (a = obj_headers self) (store_override h hs)
                                   (overlay (a = obj_cookies self) (store_override h cs)
                                      (rn_entries ?f (snd (h ! a)))))))"
    apply (intro conjI)
            apply (rule inj)
           apply (rule dom)
          apply (rule ransub)
         apply (rule fhd)
        apply (rule fck)
       apply (rule fdt)
      apply (rule url)
     apply (rule meth)
    apply (rule last)
    done
  have mutall: "\<forall>a c. a \<in> oreach h' (request_roots t) \<and> a \<notin> oreach h ?O \<longrightarrow>
              take (length h) (h'[a := c]) = h"
    using mut by blast
  show ?thesis
    apply (intro conjI)
       apply (rule old)
      apply (rule exI [where x = "map_of memo"])
      apply (rule iso)
     apply (rule shared)
    apply (rule mutall)
    done
qed

theorem template_instance_is_deep_copy_witness:
  "template_object_call 2 example_template None ONone (Some [5]) None
     (Some [(OStr ''json'', ORef 6)]) example_heap
   = Inr (\<lparr>obj_method = ''PUT'', obj_url = OStr ''https://a.test'', obj_headers = 7,
           obj_cookies = 9, obj_data = 10\<rparr>,
          example_heap @
            [(TDict, [(OStr ''accept'', ORef 8)]),
             (TPlugin ''accept'' False False (\<lambda>u. Some ''text/html''), []),
             (TDict, [(OStr ''sid'', ORef 5)]),
             (TDict, [(OStr ''data'', ORef 11), (OStr ''json'', ORef 6)]),
             (TDict, [(OStr ''user'', OStr ''u'')])])
   \<and> take (length example_heap)
         (example_heap @
            [(TDict, [(OStr ''accept'', ORef 8)]),
             (TPlugin ''accept'' False False (\<lambda>u. Some ''text/html''), []),
             (TDict, [(OStr ''sid'', ORef 5)]),
             (TDict, [(OStr ''data'', ORef 11), (OStr ''json'', ORef 6)]),
             (TDict, [(OStr ''user'', OStr ''u'')])]) = example_heap
   \<and> oreach (example_heap @
            [(TDict, [(OStr ''accept'', ORef 8)]),
             (TPlugin ''accept'' False False (\<lambda>u. Some ''text/html''), []),
             (TDict, [(OStr ''sid'', ORef 5)]),
             (TDict, [(OStr ''data'', ORef 11), (OStr ''json'', ORef 6)]),
             (TDict, [(OStr ''user'', OStr ''u'')])])
         (request_roots \<lparr>obj_method = ''PUT'', obj_url = OStr ''https://a.test'',
                          obj_headers = 7, obj_cookies = 9, obj_data = 10\<rparr>)
       \<inter> {..< length example_heap}
     \<subseteq> oreach example_heap
         (override_addrs ONone (Some [5]) None (Some [(OStr ''json'', ORef 6)]))"
proof -
  let ?t = "\<lparr>obj_method = ''PUT'', obj_url = OStr ''https://a.test'', obj_headers = 7,
           obj_cookies = 9, obj_data = 10\<rparr>"
  let ?h' = "example_heap @
            [(TDict, [(OStr ''accept'', ORef 8)]),
             (TPlugin ''accept'' False False (\<lambda>u. Some ''text/html''), []),
             (TDict, [(OStr ''sid'', ORef 5)]),
             (TDict, [(OStr ''data'', ORef 11), (OStr ''json'', ORef 6)]),
             (TDict, [(OStr ''user'', OStr ''u'')])]"
  have wf: "owf example_heap"
    by (simp add: owf_def example_heap_def obj_addrs_def entries_addrs_def All_less_Suc
          eval_nat_numeral)
  have roots: "request_roots example_template \<subseteq> {..< length example_heap}"
    by (simp add: request_roots_def example_template_def example_heap_def)
  have over: "override_addrs ONone (Some [5]) None (Some [(OStr ''json'', ORef 6)])
                \<subseteq> {..< length example_heap}"
    by (simp add: override_addrs_def data_override_def entries_addrs_def example_heap_def)
  have call: "template_object_call 2 example_template None ONone (Some [5]) None
     (Some [(OStr ''json'', ORef 6)]) example_heap = Inr (?t, ?h')"
    by (simp add: template_object_call_def odeepcopy_request_def ocopy_object_def
          ocopy_entry_def oderef_def omerge_override_def oupdate_object_def truthy_ref_def
          dict_update_def example_heap_def example_template_def eval_nat_numeral)
  from template_instance_is_deep_copy [OF wf roots over call]
  have "take (length example_heap) ?h' = example_heap"
    and "oreach ?h' (request_roots ?t) \<inter> {..< length example_heap}
           \<subseteq> oreach example_heap
               (override_addrs ONone (Some [5]) None (Some [(OStr ''json'', ORef 6)]))"
    by blast+
  then show ?thesis
    using call by blast
qed

text \<open>
  C6 as stated fails for objects passed as overrides, which are stored as they are: two
  instances made from the example template with the same data override both hold the
  caller's dictionary (address 6) in their \<^verbatim>\<open>data\<close>, so a change made to it through
  one instance shows in the other.
\<close>

theorem template_overrides_are_shared:
  "template_object_call 2 example_template None ONone None None
     (Some [(OStr ''json'', ORef 6)]) example_heap
   = Inr (\<lparr>obj_method = ''PUT'', obj_url = OStr ''https://a.test'', obj_headers = 7,
           obj_cookies = 9, obj_data = 10\<rparr>,
          example_heap @
            [(TDict, [(OStr ''accept'', ORef 8)]),
             (TPlugin ''accept'' False False (\<lambda>u. Some ''text/html''), []),
             (TDict, []),
             (TDict, [(OStr ''data'', ORef 11), (OStr ''json'', ORef 6)]),
             (TDict, [(OStr ''user'', OStr ''u'')])])
   \<and> template_object_call 2 example_template None ONone None None
         (Some [(OStr ''json'', ORef 6)])
         (example_heap @
            [(TDict, [(OStr ''accept'', ORef 8)]),
             (TPlugin ''accept'' False False (\<lambda>u. Some ''text/html''), []),
             (TDict, []),
             (TDict, [(OStr ''data'', ORef 11), (OStr ''json'', ORef 6)]),
             (TDict, [(OStr ''user'', OStr ''u'')])])
     = Inr (\<lparr>obj_method = ''PUT'', obj_url = OStr ''https://a.test'', obj_headers = 12,
             obj_cookies = 14, obj_data = 15\<rparr>,
            example_heap @
            [(TDict, [(OStr ''accept'', ORef 8)]),
             (TPlugin ''accept'' False False (\<lambda>u. Some ''text/html''), []),
             (TDict, []),
             (TDict, [(OStr ''data'', ORef 11), (OStr ''json'', ORef 6)]),
             (TDict, [(OStr ''user'', OStr ''u'')]),
             (TDict, [(OStr ''accept'', ORef 13)]),
             (TPlugin ''accept'' False False (\<lambda>u. Some ''text/html''), []),
             (TDict, []),
             (TDict, [(OStr ''data'', ORef 16), (OStr ''json'', ORef 6)]),
             (TDict, [(OStr ''user'', OStr ''u'')])])
   \<and> 6 \<in> obj_addrs (oderef
         (example_heap @
            [(TDict, [(OStr ''accept'', ORef 8)]),
             (TPlugin ''accept'' False False (\<lambda>u. Some ''text/html''), []),
             (TDict, []),
             (TDict, [(OStr ''data'', ORef 11), (OStr ''json'', ORef 6)]),
             (TDict, [(OStr ''user'', OStr ''u'')]),
             (TDict, [(OStr ''accept'', ORef 13)]),
             (TPlugin ''accept'' False False (\<lambda>u. Some ''text/html''), []),
             (TDict, []),
             (TDict, [(OStr ''data'', ORef 16), (OStr ''json'', ORef 6)]),
             (TDict, [(OStr ''user'', OStr ''u'')])]) 10)
   \<and> 6 \<in> obj_addrs (oderef
         (example_heap @
            [(TDict, [(OStr ''accept'', ORef 8)]),
             (TPlugin ''accept'' False False (\<lambda>u. Some ''text/html''), []),
             (TDict, []),
             (TDict, [(OStr ''data'', ORef 11), (OStr ''json'', ORef 6)]),
             (TDict, [(OStr ''user'', OStr ''u'')]),
             (TDict, [(OStr ''accept'', ORef 13)]),
             (TPlugin ''accept'' False False (\<lambda>u. Some ''text/html''), []),
             (TDict, []),
             (TDict, [(OStr ''data'', ORef 16), (OStr ''json'', ORef 6)]),
             (TDict, [(OStr ''user'', OStr ''u'')])]) 15)"
  by (simp add: template_object_call_def odeepcopy_request_def ocopy_object_def
        ocopy_entry_def oderef_def omerge_override_def oupdate_object_def truthy_ref_def
        dict_update_def example_heap_def example_template_def obj_addrs_def entries_addrs_def
        eval_nat_numeral)
end
